theory Spec2Isabelle
  imports
    Main
    "HOL-Library.Word"
    "HOL-Library.Char_ord"
    "HOL-Library.List_Lexorder"
    "HOL-Library.Sublist"
    "HOL-Library.Multiset"
    "HOL-Library.AList"
begin

section \<open>Go strings\<close>

text \<open>
  A Go string is a sequence of bytes, here a \<^typ>\<open>string\<close> (a list of 8-bit characters).
  Go compares strings bytewise and lexicographically; that is the order \<open>(<)\<close> on
  \<^typ>\<open>string\<close> given by the lexicographic order on lists over the byte order on
  characters.
\<close>

subsection \<open>strings.TrimSpace\<close>

text \<open>
  \<^verbatim>\<open>strings.TrimSpace\<close> removes leading and trailing white space as defined by Unicode
  (\<^verbatim>\<open>unicode.IsSpace\<close>): U+0009..U+000D, U+0020, U+0085, U+00A0, U+1680,
  U+2000..U+200A, U+2028, U+2029, U+202F, U+205F and U+3000. On the bytes of the string
  these are the following UTF-8 sequences. A byte that starts no such sequence (also an
  ill-formed one, which Go decodes as U+FFFD) stops the trimming.
\<close>

definition spaceRunes :: "string list" where
  "spaceRunes =
    [[CHR 0x09], [CHR 0x0A], [CHR 0x0B], [CHR 0x0C], [CHR 0x0D], [CHR 0x20],
     [CHR 0xC2, CHR 0x85], [CHR 0xC2, CHR 0xA0],
     [CHR 0xE1, CHR 0x9A, CHR 0x80],
     [CHR 0xE2, CHR 0x80, CHR 0x80], [CHR 0xE2, CHR 0x80, CHR 0x81],
     [CHR 0xE2, CHR 0x80, CHR 0x82], [CHR 0xE2, CHR 0x80, CHR 0x83],
     [CHR 0xE2, CHR 0x80, CHR 0x84], [CHR 0xE2, CHR 0x80, CHR 0x85],
     [CHR 0xE2, CHR 0x80, CHR 0x86], [CHR 0xE2, CHR 0x80, CHR 0x87],
     [CHR 0xE2, CHR 0x80, CHR 0x88], [CHR 0xE2, CHR 0x80, CHR 0x89],
     [CHR 0xE2, CHR 0x80, CHR 0x8A],
     [CHR 0xE2, CHR 0x80, CHR 0xA8], [CHR 0xE2, CHR 0x80, CHR 0xA9],
     [CHR 0xE2, CHR 0x80, CHR 0xAF],
     [CHR 0xE2, CHR 0x81, CHR 0x9F],
     [CHR 0xE3, CHR 0x80, CHR 0x80]]"

text \<open>The number of bytes of the white-space rune a string starts with; 0 if it starts with none.\<close>

definition leadRune :: "string list \<Rightarrow> string \<Rightarrow> nat" where
  "leadRune encs s =
     (case find (\<lambda>e. e \<noteq> [] \<and> prefix e s) encs of None \<Rightarrow> 0 | Some e \<Rightarrow> length e)"

lemma leadRune_le: "leadRune encs s \<le> length s"
  by (auto simp: leadRune_def find_Some_iff prefix_length_le split: option.splits)

function dropRunes :: "string list \<Rightarrow> string \<Rightarrow> string" where
  "dropRunes encs s =
     (if leadRune encs s = 0 then s else dropRunes encs (drop (leadRune encs s) s))"
  by pat_completeness auto
termination
proof (relation "measure (\<lambda>(encs, s). length s)")
  show "wf (measure (\<lambda>(encs, s). length s))" by simp
next
  fix encs :: "string list" and s :: string
  assume "leadRune encs s \<noteq> 0"
  moreover have "leadRune encs s \<le> length s" by (rule leadRune_le)
  ultimately show "((encs, drop (leadRune encs s) s), (encs, s)) \<in> measure (\<lambda>(encs, s). length s)"
    by simp
qed

declare dropRunes.simps [simp del]

definition TrimLeft :: "string \<Rightarrow> string" where
  "TrimLeft s = dropRunes spaceRunes s"

definition TrimRight :: "string \<Rightarrow> string" where
  "TrimRight s = rev (dropRunes (map rev spaceRunes) (rev s))"

definition TrimSpace :: "string \<Rightarrow> string" where
  "TrimSpace s = TrimRight (TrimLeft s)"

text \<open>
  A string is white space only if it is a sequence of white-space runes (the empty
  sequence included).
\<close>

definition whitespace_only :: "string \<Rightarrow> bool" where
  "whitespace_only s \<longleftrightarrow> (\<exists>ws. set ws \<subseteq> set spaceRunes \<and> s = concat ws)"

text \<open>No sequence of the list is empty or a proper prefix of another one.\<close>

definition prefix_code :: "string list \<Rightarrow> bool" where
  "prefix_code encs \<longleftrightarrow>
     list_all (\<lambda>e. e \<noteq> [] \<and> list_all (\<lambda>e'. prefix e e' \<longrightarrow> e = e') encs) encs"

text \<open>The bytes that occur in the encoding of some white-space rune.\<close>

definition space_bytes :: "char set" where
  "space_bytes = \<Union> (set ` set spaceRunes)"

subsection \<open>strings.Contains\<close>

definition Contains :: "string \<Rightarrow> string \<Rightarrow> bool" where
  "Contains s substr = sublist substr s"

subsection \<open>strconv.FormatInt in base 10\<close>

definition digit :: "nat \<Rightarrow> char" where
  "digit d = ''0123456789'' ! d"

definition digits :: "char set" where
  "digits = set ''0123456789''"

function decimal :: "nat \<Rightarrow> string" where
  "decimal n = (if n < 10 then [digit n] else decimal (n div 10) @ [digit (n mod 10)])"
  by pat_completeness auto
termination
  by (relation "measure id") auto

declare decimal.simps [simp del]

text \<open>
  The counter is an \<^verbatim>\<open>int64\<close>: a 64-bit word read as two's complement.
  \<^verbatim>\<open>FormatInt\<close> writes a minus sign and the magnitude for a negative value.
\<close>

definition FormatInt :: "64 word \<Rightarrow> string" where
  "FormatInt i =
     (if sint i < 0 then CHR ''-'' # decimal (nat (- sint i)) else decimal (nat (sint i)))"

section \<open>The data model (package user)\<close>

text \<open>
  A Go slice value is \<^verbatim>\<open>nil\<close> (\<^term>\<open>None\<close>) or holds a sequence of elements.
  This section models values only; sharing of backing arrays is modelled separately below.
\<close>

type_synonym 'a slice = "'a list option"

definition elems :: "'a slice \<Rightarrow> 'a list" where
  "elems sl = (case sl of None \<Rightarrow> [] | Some xs \<Rightarrow> xs)"

text \<open>\<^verbatim>\<open>append([]T(nil), xs...)\<close>: appending nothing to nil leaves nil.\<close>

definition append_nil :: "'a list \<Rightarrow> 'a slice" where
  "append_nil xs = (if xs = [] then None else Some xs)"

type_synonym byte = "8 word"

text \<open>
  The two slice fields of \<^verbatim>\<open>Attributes\<close> are typed by parameters: slice values here,
  references into a heap in the section on sharing below.
\<close>

record ('t, 'b) attributes =
  Name :: string
  Email :: string
  Phone :: string
  Address :: string
  Bio :: string
  Tags :: 't
  Avatar :: 'b

type_synonym Attributes = "(string slice, byte slice) attributes"

text \<open>\<^verbatim>\<open>User\<close> embeds \<^verbatim>\<open>Attributes\<close>: a field of that name whose fields are promoted.\<close>

record ('t, 'b) user =
  ID :: string
  Attrs :: "('t, 'b) attributes"

type_synonym User = "(string slice, byte slice) user"

definition cloneAttributes :: "Attributes \<Rightarrow> Attributes" where
  "cloneAttributes attrs =
     (let copied = attrs;
          copied = (if Tags attrs \<noteq> None
                    then copied\<lparr>Tags := append_nil (elems (Tags attrs))\<rparr> else copied);
          copied = (if Avatar attrs \<noteq> None
                    then copied\<lparr>Avatar := append_nil (elems (Avatar attrs))\<rparr> else copied)
      in copied)"

section \<open>The record store (Store)\<close>

text \<open>
  \<^verbatim>\<open>users\<close> is a Go map. It is modelled by its entries, with pairwise distinct keys, in
  the order in which a \<^verbatim>\<open>range\<close> loop visits them. Go leaves that order unspecified, so
  nothing below may depend on it. Every method runs under the store's lock, so a call is
  one atomic step on the state.
\<close>

record ('t, 'b) store =
  users :: "(string \<times> ('t, 'b) user) list"
  nextID :: "64 word"

type_synonym Store = "(string slice, byte slice) store"

text \<open>
  The errors of the two packages: \<^verbatim>\<open>user.ErrNotFound\<close>, an error that wraps
  \<^verbatim>\<open>service.ErrInvalidInput\<close> with a detail, and any other error (with its text).
\<close>

datatype error = ErrNotFound | ErrInvalidInput string | ErrOther string

definition NewStore :: "('t, 'b) store" where
  "NewStore = \<lparr>users = [], nextID = 0\<rparr>"

definition Store_Create :: "Attributes \<Rightarrow> Store \<Rightarrow> User \<times> Store" where
  "Store_Create attrs s =
     (let n = nextID s + 1;
          ident = FormatInt n;
          u = \<lparr>ID = ident, Attrs = cloneAttributes attrs\<rparr>
      in (u, \<lparr>users = AList.update ident u (users s), nextID = n\<rparr>))"

definition Store_Update :: "string \<Rightarrow> Attributes \<Rightarrow> Store \<Rightarrow> (error + User) \<times> Store" where
  "Store_Update ident attrs s =
     (case map_of (users s) ident of
        None \<Rightarrow> (Inl ErrNotFound, s)
      | Some _ \<Rightarrow>
          (let u = \<lparr>ID = ident, Attrs = cloneAttributes attrs\<rparr>
           in (Inr u, s\<lparr>users := AList.update ident u (users s)\<rparr>)))"

definition Store_Get :: "string \<Rightarrow> ('t, 'b) store \<Rightarrow> ('t, 'b) user option" where
  "Store_Get ident s = map_of (users s) ident"

definition Store_Delete :: "string \<Rightarrow> ('t, 'b) store \<Rightarrow> bool \<times> ('t, 'b) store" where
  "Store_Delete ident s =
     (case map_of (users s) ident of
        None \<Rightarrow> (False, s)
      | Some _ \<Rightarrow> (True, s\<lparr>users := AList.delete ident (users s)\<rparr>))"

text \<open>
  \<^verbatim>\<open>sort.Slice\<close> sorts in place by the given \<^verbatim>\<open>less\<close>; it is not stable. It is modelled
  by insertion sort; on pairwise distinct keys every sorting algorithm gives the same result.
\<close>

fun insert_less :: "('a \<Rightarrow> 'a \<Rightarrow> bool) \<Rightarrow> 'a \<Rightarrow> 'a list \<Rightarrow> 'a list" where
  "insert_less lt x [] = [x]"
| "insert_less lt x (y # ys) =
     (if lt y x then y # insert_less lt x ys else x # y # ys)"

definition sort_Slice :: "('a \<Rightarrow> 'a \<Rightarrow> bool) \<Rightarrow> 'a list \<Rightarrow> 'a list" where
  "sort_Slice lt xs = foldr (insert_less lt) xs []"

text \<open>
  \<^verbatim>\<open>List\<close> on the entries as the \<^verbatim>\<open>range\<close> loop yields them. The result is
  \<^verbatim>\<open>nil\<close> for the empty store.
\<close>

definition List_range :: "(string \<times> ('t, 'b) user) list \<Rightarrow> ('t, 'b) user slice" where
  "List_range entries =
     (if length entries = 0 then None
      else Some (sort_Slice (\<lambda>a b. ID a < ID b) (map snd entries)))"

definition Store_List :: "('t, 'b) store \<Rightarrow> ('t, 'b) user slice" where
  "Store_List s = List_range (users s)"


subsection \<open>Sequences of operations on one store\<close>

text \<open>
  The mutating calls a store receives during its lifetime, in the order in which their
  critical sections run. \<^verbatim>\<open>Get\<close> and \<^verbatim>\<open>List\<close> do not change the state.
\<close>

datatype op = OpCreate Attributes | OpUpdate string Attributes | OpDelete string

fun step :: "op \<Rightarrow> Store \<Rightarrow> Store" where
  "step (OpCreate attrs) s = snd (Store_Create attrs s)"
| "step (OpUpdate ident attrs) s = snd (Store_Update ident attrs s)"
| "step (OpDelete ident) s = snd (Store_Delete ident s)"

fun run :: "op list \<Rightarrow> Store \<Rightarrow> Store" where
  "run [] s = s"
| "run (x # xs) s = run xs (step x s)"

text \<open>The identifiers that the \<^verbatim>\<open>Create\<close> calls of a sequence return, in call order.\<close>

fun minted :: "op list \<Rightarrow> Store \<Rightarrow> string list" where
  "minted [] s = []"
| "minted (OpCreate attrs # xs) s =
     ID (fst (Store_Create attrs s)) # minted xs (step (OpCreate attrs) s)"
| "minted (x # xs) s = minted xs (step x s)"

fun creates :: "op list \<Rightarrow> nat" where
  "creates [] = 0"
| "creates (OpCreate attrs # xs) = Suc (creates xs)"
| "creates (x # xs) = creates xs"

text \<open>The number a decimal numeral denotes; \<^term>\<open>None\<close> for any other string.\<close>

definition digit_val :: "char \<Rightarrow> nat option" where
  "digit_val c = (if CHR ''0'' \<le> c \<and> c \<le> CHR ''9'' then Some (of_char c - 48) else None)"

fun numeral_val_acc :: "nat \<Rightarrow> string \<Rightarrow> nat option" where
  "numeral_val_acc acc [] = Some acc"
| "numeral_val_acc acc (c # cs) =
     (case digit_val c of None \<Rightarrow> None | Some d \<Rightarrow> numeral_val_acc (10 * acc + d) cs)"

definition numeral_val :: "string \<Rightarrow> nat option" where
  "numeral_val s = (if s = [] then None else numeral_val_acc 0 s)"

text \<open>The order of the numbers that two decimal numerals denote.\<close>

definition id_less :: "string \<Rightarrow> string \<Rightarrow> bool" where
  "id_less a b =
     (case numeral_val a of None \<Rightarrow> False
      | Some x \<Rightarrow> (case numeral_val b of None \<Rightarrow> False | Some y \<Rightarrow> x < y))"

section \<open>The directory service (package service)\<close>

text \<open>
  An error made by \<^verbatim>\<open>fmt.Errorf("%w: ...", ErrInvalidInput)\<close> wraps \<^verbatim>\<open>ErrInvalidInput\<close>
  and carries the detail after the colon; \<^verbatim>\<open>Error()\<close> gives the whole text.
\<close>

fun Error :: "error \<Rightarrow> string" where
  "Error ErrNotFound = ''user not found''"
| "Error (ErrInvalidInput detail) = ''invalid user input: '' @ detail"
| "Error (ErrOther text) = text"

definition validatePayload :: "Attributes \<Rightarrow> error option" where
  "validatePayload attrs =
     (if Name attrs = [] then Some (ErrInvalidInput ''name is required'')
      else if Email attrs = [] \<or> \<not> Contains (Email attrs) ''@''
      then Some (ErrInvalidInput (''email must contain '' @ [CHR 0x27, CHR ''@'', CHR 0x27]))
      else None)"

definition validateIdentifier :: "string \<Rightarrow> error option" where
  "validateIdentifier ident =
     (if TrimSpace ident = [] then Some (ErrInvalidInput ''id is required'') else None)"

text \<open>
  The loop of \<^verbatim>\<open>normalizeAttributes\<close> over the tags: \<^verbatim>\<open>clean\<close> collects the
  trimmed tags that are not empty.
\<close>

fun normalizeTags :: "string list \<Rightarrow> string list \<Rightarrow> string list" where
  "normalizeTags clean [] = clean"
| "normalizeTags clean (tag # tags) =
     (let tag = TrimSpace tag
      in if tag \<noteq> [] then normalizeTags (clean @ [tag]) tags else normalizeTags clean tags)"

definition normalizeAttributes :: "Attributes \<Rightarrow> Attributes" where
  "normalizeAttributes attrs =
     (let attrs = attrs\<lparr>Name := TrimSpace (Name attrs)\<rparr>;
          attrs = attrs\<lparr>Email := TrimSpace (Email attrs)\<rparr>;
          attrs = attrs\<lparr>Phone := TrimSpace (Phone attrs)\<rparr>;
          attrs = attrs\<lparr>Address := TrimSpace (Address attrs)\<rparr>;
          attrs = attrs\<lparr>Bio := TrimSpace (Bio attrs)\<rparr>
      in if length (elems (Tags attrs)) > 0
         then attrs\<lparr>Tags := Some (normalizeTags [] (elems (Tags attrs)))\<rparr>
         else attrs)"

definition Service_Create :: "Attributes \<Rightarrow> Store \<Rightarrow> (error + User) \<times> Store" where
  "Service_Create attrs s =
     (let clean = normalizeAttributes attrs
      in case validatePayload clean of
           Some err \<Rightarrow> (Inl err, s)
         | None \<Rightarrow> (Inr (fst (Store_Create clean s)), snd (Store_Create clean s)))"

definition Service_Update :: "string \<Rightarrow> Attributes \<Rightarrow> Store \<Rightarrow> (error + User) \<times> Store" where
  "Service_Update ident attrs s =
     (case validateIdentifier ident of
        Some err \<Rightarrow> (Inl err, s)
      | None \<Rightarrow>
          (let clean = normalizeAttributes attrs
           in case validatePayload clean of
                Some err \<Rightarrow> (Inl err, s)
              | None \<Rightarrow> Store_Update ident clean s))"

definition Service_Get :: "string \<Rightarrow> Store \<Rightarrow> error + User" where
  "Service_Get ident s =
     (case validateIdentifier ident of
        Some err \<Rightarrow> Inl err
      | None \<Rightarrow> (case Store_Get ident s of None \<Rightarrow> Inl ErrNotFound | Some u \<Rightarrow> Inr u))"

definition Service_Delete :: "string \<Rightarrow> Store \<Rightarrow> error option \<times> Store" where
  "Service_Delete ident s =
     (case validateIdentifier ident of
        Some err \<Rightarrow> (Some err, s)
      | None \<Rightarrow>
          (if \<not> fst (Store_Delete ident s) then (Some ErrNotFound, snd (Store_Delete ident s))
           else (None, snd (Store_Delete ident s))))"

definition Service_List :: "Store \<Rightarrow> User slice" where
  "Service_List s = Store_List s"



subsection \<open>The gRPC entry points of the service\<close>

text \<open>
  Modelled from the spec: the generated package \<^verbatim>\<open>userpb\<close> (the request and response
  messages) and the gRPC status type are not among the sources. A message is modelled
  by a record of the fields that the handlers read through its getters or set, a status
  by its code and message, and \<^verbatim>\<open>emptypb.Empty\<close> by \<^typ>\<open>unit\<close>.
\<close>

record pbUser =
  pbId :: string
  pbName :: string
  pbEmail :: string
  pbPhone :: string
  pbAddress :: string
  pbBio :: string
  pbTags :: "string slice"
  pbAvatar :: "byte slice"

datatype code = InvalidArgument | NotFound | Internal

record status =
  Code :: code
  Message :: string

definition toProto :: "User \<Rightarrow> pbUser" where
  "toProto u =
     \<lparr>pbId = ID u,
      pbName = Name (Attrs u),
      pbEmail = Email (Attrs u),
      pbPhone = Phone (Attrs u),
      pbAddress = Address (Attrs u),
      pbBio = Bio (Attrs u),
      pbTags = append_nil (elems (Tags (Attrs u))),
      pbAvatar = append_nil (elems (Avatar (Attrs u)))\<rparr>"

definition protoToAttributes ::
  "string \<Rightarrow> string \<Rightarrow> string \<Rightarrow> string \<Rightarrow> string \<Rightarrow> string slice \<Rightarrow> byte slice \<Rightarrow> Attributes" where
  "protoToAttributes name email phone address bio tags avatar =
     \<lparr>Name = name, Email = email, Phone = phone, Address = address, Bio = bio,
      Tags = append_nil (elems tags), Avatar = append_nil (elems avatar)\<rparr>"

definition serviceError :: "error \<Rightarrow> status" where
  "serviceError err =
     (case err of
        ErrInvalidInput _ \<Rightarrow> \<lparr>Code = InvalidArgument, Message = Error err\<rparr>
      | ErrNotFound \<Rightarrow> \<lparr>Code = NotFound, Message = Error err\<rparr>
      | ErrOther _ \<Rightarrow> \<lparr>Code = Internal, Message = Error err\<rparr>)"

text \<open>A handler's request is given by what its getters return.\<close>

definition GetUser :: "string \<Rightarrow> Store \<Rightarrow> status + pbUser" where
  "GetUser reqId s =
     (case Service_Get (TrimSpace reqId) s of
        Inl err \<Rightarrow> Inl (serviceError err)
      | Inr u \<Rightarrow> Inr (toProto u))"

definition UpdateUser :: "pbUser \<Rightarrow> Store \<Rightarrow> (status + pbUser) \<times> Store" where
  "UpdateUser req s =
     (let attrs = protoToAttributes (pbName req) (pbEmail req) (pbPhone req) (pbAddress req)
                    (pbBio req) (pbTags req) (pbAvatar req)
      in case Service_Update (TrimSpace (pbId req)) attrs s of
           (Inl err, s') \<Rightarrow> (Inl (serviceError err), s')
         | (Inr u, s') \<Rightarrow> (Inr (toProto u), s'))"

definition DeleteUser :: "string \<Rightarrow> Store \<Rightarrow> (status + unit) \<times> Store" where
  "DeleteUser reqId s =
     (case Service_Delete (TrimSpace reqId) s of
        (Some err, s') \<Rightarrow> (Inl (serviceError err), s')
      | (None, s') \<Rightarrow> (Inr (), s'))"

text \<open>
  What every reachable store satisfies: the keys of the map are pairwise distinct (it is a
  map), and each record is stored under its own identifier.
\<close>

definition store_inv :: "Store \<Rightarrow> bool" where
  "store_inv s \<longleftrightarrow> distinct (map fst (users s)) \<and> (\<forall>(k, u) \<in> set (users s). ID u = k)"


section \<open>Sharing: slices as references to backing arrays\<close>

text \<open>
  The sections above take a slice for the sequence of its elements. To say who can
  change what, this section models the store once more with slices as references into a
  heap of arrays. \<^verbatim>\<open>Get\<close>, \<^verbatim>\<open>Delete\<close> and \<^verbatim>\<open>List\<close> neither read nor write arrays:
  their definitions above are used as they are.
\<close>

text \<open>
  A slice is nil or refers to a backing array: the array's address, the offset of the
  slice's first element in it, the length and the capacity. Arrays are allocated at
  increasing addresses; the arrays of strings and the arrays of bytes are kept apart.
\<close>

type_synonym addr = nat

datatype sliceref = NilSlice | SliceRef addr nat nat nat

record 'a mem =
  cells :: "addr \<Rightarrow> 'a list"
  fresh :: addr

record heap =
  strs :: "string mem"
  bytes :: "byte mem"

type_synonym AttributesRef = "(sliceref, sliceref) attributes"
type_synonym UserRef = "(sliceref, sliceref) user"
type_synonym StoreRef = "(sliceref, sliceref) store"

text \<open>The elements of a slice.\<close>

definition read :: "'a mem \<Rightarrow> sliceref \<Rightarrow> 'a list" where
  "read m sl =
     (case sl of NilSlice \<Rightarrow> [] | SliceRef a off n c \<Rightarrow> take n (drop off (cells m a)))"

text \<open>A new array holding the given elements, and the slice of all of it.\<close>

definition alloc :: "'a list \<Rightarrow> 'a mem \<Rightarrow> sliceref \<times> 'a mem" where
  "alloc xs m =
     (SliceRef (fresh m) 0 (length xs) (length xs),
      m\<lparr>cells := (cells m)(fresh m := xs), fresh := Suc (fresh m)\<rparr>)"

text \<open>
  \<^verbatim>\<open>append([]T(nil), src...)\<close>: nil if \<^verbatim>\<open>src\<close> has no elements, else a new array with
  the elements of \<^verbatim>\<open>src\<close>. (Go may give the new array a larger capacity; nothing
  here depends on it.)
\<close>

definition append_nil_ref :: "sliceref \<Rightarrow> 'a mem \<Rightarrow> sliceref \<times> 'a mem" where
  "append_nil_ref src m = (if read m src = [] then (NilSlice, m) else alloc (read m src) m)"

text \<open>The assignment \<^verbatim>\<open>sl[i] = v\<close>; it panics (\<^term>\<open>None\<close>) out of range.\<close>

definition write_at :: "sliceref \<Rightarrow> nat \<Rightarrow> 'a \<Rightarrow> 'a mem \<Rightarrow> 'a mem option" where
  "write_at sl i v m =
     (case sl of
        NilSlice \<Rightarrow> None
      | SliceRef a off n c \<Rightarrow>
          if i < n then Some (m\<lparr>cells := (cells m)(a := (cells m a)[off + i := v])\<rparr>)
          else None)"

text \<open>A slice of this memory refers to an array that has been allocated.\<close>

definition valid_ref :: "'a mem \<Rightarrow> sliceref \<Rightarrow> bool" where
  "valid_ref m sl = (case sl of NilSlice \<Rightarrow> True | SliceRef a off n c \<Rightarrow> a < fresh m)"

definition cloneAttributes_ref :: "AttributesRef \<Rightarrow> heap \<Rightarrow> AttributesRef \<times> heap" where
  "cloneAttributes_ref attrs h =
     (let copied = attrs;
          (copied, h) =
            (if Tags attrs \<noteq> NilSlice
             then (copied\<lparr>Tags := fst (append_nil_ref (Tags attrs) (strs h))\<rparr>,
                   h\<lparr>strs := snd (append_nil_ref (Tags attrs) (strs h))\<rparr>)
             else (copied, h));
          (copied, h) =
            (if Avatar attrs \<noteq> NilSlice
             then (copied\<lparr>Avatar := fst (append_nil_ref (Avatar attrs) (bytes h))\<rparr>,
                   h\<lparr>bytes := snd (append_nil_ref (Avatar attrs) (bytes h))\<rparr>)
             else (copied, h))
      in (copied, h))"

definition Store_Create_ref ::
  "AttributesRef \<Rightarrow> StoreRef \<Rightarrow> heap \<Rightarrow> UserRef \<times> StoreRef \<times> heap" where
  "Store_Create_ref attrs s h =
     (let n = nextID s + 1;
          ident = FormatInt n;
          (copied, h) = cloneAttributes_ref attrs h;
          u = \<lparr>ID = ident, Attrs = copied\<rparr>
      in (u, \<lparr>users = AList.update ident u (users s), nextID = n\<rparr>, h))"

definition Store_Update_ref ::
  "string \<Rightarrow> AttributesRef \<Rightarrow> StoreRef \<Rightarrow> heap \<Rightarrow> (error + UserRef) \<times> StoreRef \<times> heap" where
  "Store_Update_ref ident attrs s h =
     (case map_of (users s) ident of
        None \<Rightarrow> (Inl ErrNotFound, s, h)
      | Some _ \<Rightarrow>
          (let (copied, h) = cloneAttributes_ref attrs h;
               u = \<lparr>ID = ident, Attrs = copied\<rparr>
           in (Inr u, s\<lparr>users := AList.update ident u (users s)\<rparr>, h)))"

text \<open>What a reader of the slice \<open>r\<close> sees after the assignment \<^verbatim>\<open>sl[i] = v\<close>.\<close>

definition after_write :: "sliceref \<Rightarrow> nat \<Rightarrow> 'a \<Rightarrow> 'a mem \<Rightarrow> sliceref \<Rightarrow> 'a list option" where
  "after_write sl i v m r = (case write_at sl i v m of None \<Rightarrow> None | Some m' \<Rightarrow> Some (read m' r))"

text \<open>The values that references stand for in a heap.\<close>

definition abs_slice :: "'a mem \<Rightarrow> sliceref \<Rightarrow> 'a slice" where
  "abs_slice m r = (case r of NilSlice \<Rightarrow> None | SliceRef a off n c \<Rightarrow> Some (read m r))"

definition abs_attrs :: "heap \<Rightarrow> AttributesRef \<Rightarrow> Attributes" where
  "abs_attrs h attrs =
     \<lparr>Name = Name attrs, Email = Email attrs, Phone = Phone attrs, Address = Address attrs,
      Bio = Bio attrs, Tags = abs_slice (strs h) (Tags attrs),
      Avatar = abs_slice (bytes h) (Avatar attrs)\<rparr>"

definition abs_user :: "heap \<Rightarrow> UserRef \<Rightarrow> User" where
  "abs_user h u = \<lparr>ID = ID u, Attrs = abs_attrs h (Attrs u)\<rparr>"

definition abs_store :: "heap \<Rightarrow> StoreRef \<Rightarrow> Store" where
  "abs_store h s = \<lparr>users = map (\<lambda>(k, u). (k, abs_user h u)) (users s), nextID = nextID s\<rparr>"

definition valid_store :: "heap \<Rightarrow> StoreRef \<Rightarrow> bool" where
  "valid_store h s \<longleftrightarrow>
     list_all (\<lambda>(k, u). valid_ref (strs h) (Tags (Attrs u)) \<and> valid_ref (bytes h) (Avatar (Attrs u)))
       (users s)"

text \<open>
  Two slices share if they point into the same backing array. A slice is apart from a
  store if it shares with the tag list (or the avatar) of no stored record.
\<close>

definition shares :: "sliceref \<Rightarrow> sliceref \<Rightarrow> bool" where
  "shares p q =
     (case p of NilSlice \<Rightarrow> False
      | SliceRef a poff pn pc \<Rightarrow>
          (case q of NilSlice \<Rightarrow> False | SliceRef b qoff qn qc \<Rightarrow> a = b))"

definition tags_apart :: "sliceref \<Rightarrow> StoreRef \<Rightarrow> bool" where
  "tags_apart p s = list_all (\<lambda>(k, w). \<not> shares p (Tags (Attrs w))) (users s)"

definition avatars_apart :: "sliceref \<Rightarrow> StoreRef \<Rightarrow> bool" where
  "avatars_apart p s = list_all (\<lambda>(k, w). \<not> shares p (Avatar (Attrs w))) (users s)"

text \<open>
  What the store holds, read through the heap, after the assignment \<^verbatim>\<open>sl[i] = v\<close> to a
  tag list or to an avatar.
\<close>

definition store_after_tag_write ::
  "sliceref \<Rightarrow> nat \<Rightarrow> string \<Rightarrow> heap \<Rightarrow> StoreRef \<Rightarrow> Store option" where
  "store_after_tag_write sl i v h s =
     (case write_at sl i v (strs h) of
        None \<Rightarrow> None
      | Some m \<Rightarrow> Some (abs_store (h\<lparr>strs := m\<rparr>) s))"

definition store_after_avatar_write ::
  "sliceref \<Rightarrow> nat \<Rightarrow> byte \<Rightarrow> heap \<Rightarrow> StoreRef \<Rightarrow> Store option" where
  "store_after_avatar_write sl i v h s =
     (case write_at sl i v (bytes h) of
        None \<Rightarrow> None
      | Some m \<Rightarrow> Some (abs_store (h\<lparr>bytes := m\<rparr>) s))"

section \<open>A concrete scenario\<close>

definition ada :: Attributes where
  "ada = \<lparr>Name = ''Ada'', Email = ''ada@example.com'', Phone = [], Address = [], Bio = [],
           Tags = None, Avatar = None\<rparr>"

definition grace :: Attributes where
  "grace = \<lparr>Name = ''Grace'', Email = ''grace@example.com'', Phone = [], Address = [],
             Bio = [], Tags = Some [''admin''], Avatar = None\<rparr>"

definition lin :: Attributes where
  "lin = \<lparr>Name = '' Lin '', Email = ''lin@example.com '', Phone = [], Address = [], Bio = [],
           Tags = Some [''  '', '' dev ''], Avatar = Some [1, 2]\<rparr>"

text \<open>A heap with the caller's array of two tags, and a bundle whose tag list is that array.\<close>

definition heap0 :: heap where
  "heap0 = \<lparr>strs = \<lparr>cells = (\<lambda>a. [])(0 := [''a'', ''b'']), fresh = 1\<rparr>,
            bytes = \<lparr>cells = (\<lambda>a. []), fresh = 0\<rparr>\<rparr>"

definition ada_ref :: AttributesRef where
  "ada_ref = \<lparr>Name = ''Ada'', Email = ''ada@example.com'', Phone = [], Address = [], Bio = [],
              Tags = SliceRef 0 0 2 2, Avatar = NilSlice\<rparr>"

text \<open>A bundle with every field set.\<close>

definition hopper :: Attributes where
  "hopper = \<lparr>Name = ''Grace Hopper'', Email = ''hopper@example.com'', Phone = ''555-0100'',
              Address = ''Arlington'', Bio = ''Rear admiral'',
              Tags = Some [''navy'', ''cobol''], Avatar = Some [137, 80]\<rparr>"

text \<open>
  A heap with the caller's arrays of the two tags and the two avatar bytes of that bundle;
  two creates with the bundle; and, after the first, a create with the tag list and the
  avatar that the first create returned.
\<close>

definition heap1 :: heap where
  "heap1 = \<lparr>strs = \<lparr>cells = (\<lambda>a. [])(0 := [''navy'', ''cobol'']), fresh = 1\<rparr>,
            bytes = \<lparr>cells = (\<lambda>a. [])(0 := [137, 80]), fresh = 1\<rparr>\<rparr>"

definition hopper_ref :: AttributesRef where
  "hopper_ref = \<lparr>Name = ''Grace Hopper'', Email = ''hopper@example.com'', Phone = ''555-0100'',
                 Address = ''Arlington'', Bio = ''Rear admiral'',
                 Tags = SliceRef 0 0 2 2, Avatar = SliceRef 0 0 2 2\<rparr>"

definition first_create :: "UserRef \<times> StoreRef \<times> heap" where
  "first_create = Store_Create_ref hopper_ref NewStore heap1"

definition second_create :: "UserRef \<times> StoreRef \<times> heap" where
  "second_create = Store_Create_ref hopper_ref (fst (snd first_create)) (snd (snd first_create))"

definition reuse_create :: "UserRef \<times> StoreRef \<times> heap" where
  "reuse_create =
     Store_Create_ref
       (hopper_ref\<lparr>Tags := Tags (Attrs (fst first_create)),
                    Avatar := Avatar (Attrs (fst first_create))\<rparr>)
       (fst (snd first_create)) (snd (snd first_create))"

section \<open>Properties of the string functions\<close>

subsection \<open>Decimal numerals\<close>

lemma digit_val_digit: "d < 10 \<Longrightarrow> digit_val (digit d) = Some d"
proof -
  assume "d < 10"
  then have "d \<in> {0,1,2,3,4,5,6,7,8,9}" by auto
  then show ?thesis by (auto simp: digit_val_def digit_def)
qed

lemma numeral_val_acc_append:
  "numeral_val_acc acc (xs @ ys) =
     (case numeral_val_acc acc xs of None \<Rightarrow> None | Some a \<Rightarrow> numeral_val_acc a ys)"
  by (induction xs arbitrary: acc) (auto split: option.splits)

lemma numeral_val_acc_decimal: "numeral_val_acc 0 (decimal n) = Some n"
proof (induction n rule: decimal.induct)
  case (1 n)
  show ?case
  proof (cases "n < 10")
    case True
    then show ?thesis by (subst decimal.simps) (simp add: digit_val_digit)
  next
    case False
    have "n mod 10 < 10" by simp
    then show ?thesis using False 1
      by (subst decimal.simps) (simp add: numeral_val_acc_append digit_val_digit)
  qed
qed

lemma decimal_nonempty: "decimal n \<noteq> []"
  by (subst decimal.simps) simp

lemma numeral_val_decimal: "numeral_val (decimal n) = Some n"
  by (simp add: numeral_val_def decimal_nonempty numeral_val_acc_decimal)

lemma decimal_inj: "decimal m = decimal n \<Longrightarrow> m = n"
  by (metis numeral_val_decimal option.inject)

subsection \<open>White space\<close>

lemma prefix_code_spaceRunes: "prefix_code spaceRunes"
  by code_simp

lemma prefix_code_rev_spaceRunes: "prefix_code (map rev spaceRunes)"
  by code_simp

lemma leadRune_zero: "leadRune encs s = 0 \<longleftrightarrow> (\<forall>e \<in> set encs. e \<noteq> [] \<longrightarrow> \<not> prefix e s)"
  by (auto simp: leadRune_def find_None_iff find_Some_iff split: option.splits)

lemma leadRune_pos:
  assumes "leadRune encs s \<noteq> 0"
  shows "\<exists>e \<in> set encs. e \<noteq> [] \<and> leadRune encs s = length e \<and> s = e @ drop (leadRune encs s) s"
proof -
  from assms obtain e where f: "find (\<lambda>e. e \<noteq> [] \<and> prefix e s) encs = Some e"
    by (auto simp: leadRune_def split: option.splits)
  then have "e \<in> set encs" "e \<noteq> []" "prefix e s"
    by (auto simp: find_Some_iff)
  moreover from f have "leadRune encs s = length e" by (simp add: leadRune_def)
  ultimately show ?thesis by (auto simp: prefix_def)
qed

lemma dropRunes_split:
  "\<exists>ws. set ws \<subseteq> set encs \<and> s = concat ws @ dropRunes encs s"
proof (induction encs s rule: dropRunes.induct)
  case (1 encs s)
  show ?case
  proof (cases "leadRune encs s = 0")
    case True
    then have "dropRunes encs s = s" by (simp add: dropRunes.simps)
    then have "set [] \<subseteq> set encs \<and> s = concat [] @ dropRunes encs s" by simp
    then show ?thesis by blast
  next
    case False
    then obtain e where e: "e \<in> set encs" "s = e @ drop (leadRune encs s) s"
      using leadRune_pos by blast
    from False 1 obtain ws where ws: "set ws \<subseteq> set encs"
      "drop (leadRune encs s) s = concat ws @ dropRunes encs (drop (leadRune encs s) s)"
      by blast
    have "dropRunes encs s = dropRunes encs (drop (leadRune encs s) s)"
      using False by (subst dropRunes.simps) simp
    then have "s = concat (e # ws) @ dropRunes encs s"
      using e(2) ws(2) by (metis append.assoc concat.simps(2))
    moreover have "set (e # ws) \<subseteq> set encs" using e(1) ws(1) by simp
    ultimately show ?thesis by blast
  qed
qed

lemma leadRune_code:
  assumes "prefix_code encs" and "e \<in> set encs"
  shows "leadRune encs (e @ t) = length e"
proof -
  have ne: "e \<noteq> []" using assms by (auto simp: prefix_code_def list_all_iff)
  then have "leadRune encs (e @ t) \<noteq> 0"
    using assms(2) by (auto simp: leadRune_zero)
  then obtain e' where e': "e' \<in> set encs" "e' \<noteq> []" "leadRune encs (e @ t) = length e'"
    "e @ t = e' @ drop (leadRune encs (e @ t)) (e @ t)"
    using leadRune_pos by blast
  then have "prefix e' (e @ t)" by (metis prefixI)
  moreover have "prefix e (e @ t)" by simp
  ultimately have "prefix e e' \<or> prefix e' e" by (metis prefix_same_cases)
  then have "e = e'"
    using assms e'(1) by (auto simp: prefix_code_def list_all_iff)
  then show ?thesis using e'(3) by simp
qed

lemma dropRunes_concat:
  assumes "prefix_code encs" and "set ws \<subseteq> set encs"
  shows "dropRunes encs (concat ws @ t) = dropRunes encs t"
  using assms(2)
proof (induction ws)
  case Nil
  show ?case by simp
next
  case (Cons e ws)
  then have e: "e \<in> set encs" and ws: "set ws \<subseteq> set encs" by simp_all
  have ne: "e \<noteq> []" using assms(1) e by (auto simp: prefix_code_def list_all_iff)
  have l: "leadRune encs (e @ concat ws @ t) = length e"
    using assms(1) e by (rule leadRune_code)
  have "dropRunes encs (e @ concat ws @ t) = dropRunes encs (concat ws @ t)"
    by (subst dropRunes.simps) (simp add: l ne)
  then show ?case using Cons.IH [OF ws] by simp
qed

lemma dropRunes_Nil: "dropRunes encs [] = []"
proof -
  have "leadRune encs [] = 0" by (simp add: leadRune_zero)
  then show ?thesis by (subst dropRunes.simps) simp
qed

lemma concat_rev_runes:
  assumes "set ws \<subseteq> set (map rev spaceRunes)"
  shows "\<exists>vs. set vs \<subseteq> set spaceRunes \<and> rev (concat ws) = concat vs"
proof -
  have "rev (concat ws) = concat (map rev (rev ws))" by (simp add: rev_concat rev_map)
  moreover have "set (map rev (rev ws)) \<subseteq> set spaceRunes" using assms by auto
  ultimately show ?thesis by blast
qed

lemma TrimSpace_empty_iff: "TrimSpace s = [] \<longleftrightarrow> whitespace_only s"
proof
  assume "whitespace_only s"
  then obtain ws where ws: "set ws \<subseteq> set spaceRunes" "s = concat ws"
    by (auto simp: whitespace_only_def)
  have "dropRunes spaceRunes (concat ws @ []) = dropRunes spaceRunes []"
    using prefix_code_spaceRunes ws(1) by (rule dropRunes_concat)
  then have "TrimLeft s = []" by (simp add: TrimLeft_def ws(2) dropRunes_Nil)
  then show "TrimSpace s = []" by (simp add: TrimSpace_def TrimRight_def dropRunes_Nil)
next
  assume e: "TrimSpace s = []"
  obtain ws1 where ws1: "set ws1 \<subseteq> set spaceRunes" "s = concat ws1 @ TrimLeft s"
    using dropRunes_split [of spaceRunes s] by (auto simp: TrimLeft_def)
  obtain ws2 where ws2: "set ws2 \<subseteq> set (map rev spaceRunes)"
    "rev (TrimLeft s) = concat ws2 @ dropRunes (map rev spaceRunes) (rev (TrimLeft s))"
    using dropRunes_split [of "map rev spaceRunes" "rev (TrimLeft s)"] by auto
  from e have "dropRunes (map rev spaceRunes) (rev (TrimLeft s)) = []"
    by (simp add: TrimSpace_def TrimRight_def)
  then have "rev (TrimLeft s) = concat ws2" using ws2(2) by simp
  then have "TrimLeft s = rev (concat ws2)" by (metis rev_rev_ident)
  then obtain vs where vs: "set vs \<subseteq> set spaceRunes" "TrimLeft s = concat vs"
    using concat_rev_runes [OF ws2(1)] by auto
  have "s = concat (ws1 @ vs)" using ws1(2) vs(2) by simp
  moreover have "set (ws1 @ vs) \<subseteq> set spaceRunes" using ws1(1) vs(1) by simp
  ultimately show "whitespace_only s" unfolding whitespace_only_def by blast
qed

lemma dropRunes_fixed: "leadRune encs s = 0 \<Longrightarrow> dropRunes encs s = s"
  by (subst dropRunes.simps) simp

lemma leadRune_dropRunes: "leadRune encs (dropRunes encs s) = 0"
proof (induction encs s rule: dropRunes.induct)
  case (1 encs s)
  show ?case
  proof (cases "leadRune encs s = 0")
    case True
    then show ?thesis by (simp add: dropRunes_fixed)
  next
    case False
    then have "dropRunes encs s = dropRunes encs (drop (leadRune encs s) s)"
      by (subst dropRunes.simps) simp
    then show ?thesis using False 1 by simp
  qed
qed

lemma suffix_dropRunes: "suffix (dropRunes encs s) s"
  using dropRunes_split [of encs s] by (metis suffixI)

lemma prefix_TrimRight: "prefix (TrimRight s) s"
  using suffix_dropRunes [of "map rev spaceRunes" "rev s"]
  by (simp add: TrimRight_def suffix_to_prefix)

lemma leadRune_prefix: "leadRune encs s = 0 \<Longrightarrow> prefix t s \<Longrightarrow> leadRune encs t = 0"
  unfolding leadRune_zero by (meson prefix_order.trans)

lemma TrimSpace_lead: "leadRune spaceRunes (TrimSpace s) = 0"
  unfolding TrimSpace_def
  by (rule leadRune_prefix [OF _ prefix_TrimRight]) (simp add: TrimLeft_def leadRune_dropRunes)

lemma TrimSpace_trail: "leadRune (map rev spaceRunes) (rev (TrimSpace s)) = 0"
  by (simp add: TrimSpace_def TrimRight_def leadRune_dropRunes)

lemma TrimSpace_fixed:
  "leadRune spaceRunes s = 0 \<Longrightarrow> leadRune (map rev spaceRunes) (rev s) = 0 \<Longrightarrow> TrimSpace s = s"
  by (simp add: TrimSpace_def TrimLeft_def TrimRight_def dropRunes_fixed)

lemma TrimSpace_idem: "TrimSpace (TrimSpace s) = TrimSpace s"
  by (rule TrimSpace_fixed [OF TrimSpace_lead TrimSpace_trail])

lemma TrimSpace_no_space_bytes:
  assumes "s \<noteq> []" and "hd s \<notin> space_bytes" and "last s \<notin> space_bytes"
  shows "TrimSpace s = s"
proof (rule TrimSpace_fixed)
  show "leadRune spaceRunes s = 0"
    unfolding leadRune_zero
  proof (intro ballI impI notI)
    fix e assume "e \<in> set spaceRunes" "e \<noteq> []" "prefix e s"
    then obtain zs where "s = e @ zs" by (auto simp: prefix_def)
    then have "hd s = hd e" "hd e \<in> set e" using \<open>e \<noteq> []\<close> by simp_all
    then show False using assms(2) \<open>e \<in> set spaceRunes\<close> by (auto simp: space_bytes_def)
  qed
  show "leadRune (map rev spaceRunes) (rev s) = 0"
    unfolding leadRune_zero
  proof (intro ballI impI notI)
    fix e assume e: "e \<in> set (map rev spaceRunes)" "e \<noteq> []" "prefix e (rev s)"
    then obtain e0 where e0: "e0 \<in> set spaceRunes" "e = rev e0" by auto
    from e obtain zs where "rev s = e @ zs" by (auto simp: prefix_def)
    then have "hd (rev s) = hd e" using e(2) by simp
    then have "last s = last e0" using assms(1) e(2) e0(2) by (simp add: hd_rev)
    moreover have "last e0 \<in> set e0" using e(2) e0(2) by simp
    ultimately show False using assms(3) e0(1) by (auto simp: space_bytes_def)
  qed
qed

lemma digit_in: "d < 10 \<Longrightarrow> digit d \<in> digits"
proof -
  assume "d < 10"
  then have "d \<in> {0,1,2,3,4,5,6,7,8,9}" by auto
  then show ?thesis by (auto simp: digit_def digits_def)
qed

lemma decimal_chars: "set (decimal n) \<subseteq> digits"
proof (induction n rule: decimal.induct)
  case (1 n)
  show ?case
  proof (cases "n < 10")
    case True
    then have "decimal n = [digit n]" by (subst decimal.simps) simp
    then show ?thesis using digit_in [OF True] by simp
  next
    case False
    have "n mod 10 < 10" by simp
    then have d: "digit (n mod 10) \<in> digits" by (rule digit_in)
    have "decimal n = decimal (n div 10) @ [digit (n mod 10)]"
      using False by (subst decimal.simps) simp
    then show ?thesis using d 1 [OF False] by simp
  qed
qed

lemma FormatInt_chars: "set (FormatInt i) \<subseteq> insert (CHR ''-'') digits"
  using decimal_chars [of "nat (sint i)"] decimal_chars [of "nat (- sint i)"]
  unfolding FormatInt_def by (cases "sint i < 0") auto

lemma FormatInt_nonempty: "FormatInt i \<noteq> []"
  by (simp add: FormatInt_def decimal_nonempty)

lemma id_chars_checked:
  "list_all (\<lambda>c. list_all (\<lambda>e. c \<notin> set e) spaceRunes) ''-0123456789''"
  by code_simp

lemma id_chars_no_space: "c \<in> insert (CHR ''-'') digits \<Longrightarrow> c \<notin> space_bytes"
proof -
  assume "c \<in> insert (CHR ''-'') digits"
  then have "c \<in> set ''-0123456789''" by (simp add: digits_def)
  then show ?thesis
    using id_chars_checked unfolding space_bytes_def list_all_iff by blast
qed

lemma TrimSpace_FormatInt: "TrimSpace (FormatInt i) = FormatInt i"
proof (rule TrimSpace_no_space_bytes)
  show ne: "FormatInt i \<noteq> []" by (rule FormatInt_nonempty)
  have "hd (FormatInt i) \<in> insert (CHR ''-'') digits"
    using ne FormatInt_chars [of i] by (meson hd_in_set subsetD)
  then show "hd (FormatInt i) \<notin> space_bytes" by (rule id_chars_no_space)
  have "last (FormatInt i) \<in> insert (CHR ''-'') digits"
    using ne FormatInt_chars [of i] by (meson last_in_set subsetD)
  then show "last (FormatInt i) \<notin> space_bytes" by (rule id_chars_no_space)
qed

section \<open>Properties of the store\<close>

lemmas store_eval =
  Store_Create_def Store_Update_def Store_Get_def Store_Delete_def NewStore_def Let_def
  FormatInt_def decimal.simps digit_def cloneAttributes_def append_nil_def elems_def
  ada_def grace_def

subsection \<open>The counter and the identifiers it yields\<close>

lemma nextID_step: "nextID (step x s) = nextID s + of_nat (creates [x])"
  by (cases x) (auto simp: Store_Create_def Store_Update_def Store_Delete_def Let_def split: option.splits)

lemma creates_Cons: "creates (x # xs) = creates [x] + creates xs"
  by (cases x) auto

lemma nextID_run: "nextID (run xs s) = nextID s + of_nat (creates xs)"
proof (induction xs arbitrary: s)
  case Nil
  show ?case by simp
next
  case (Cons x xs)
  have "nextID (run (x # xs) s) = nextID (step x s) + of_nat (creates xs)"
    by (simp add: Cons.IH)
  also have "\<dots> = nextID s + of_nat (creates [x]) + of_nat (creates xs)"
    by (simp add: nextID_step)
  finally show ?case
    by (simp add: creates_Cons [of x xs] add.assoc)
qed

lemma ID_Store_Create: "ID (fst (Store_Create attrs s)) = FormatInt (nextID s + 1)"
  by (simp add: Store_Create_def Let_def)

lemma nextID_Store_Update: "nextID (snd (Store_Update i a s)) = nextID s"
  by (simp add: Store_Update_def Let_def split: option.splits)

lemma nextID_Store_Delete: "nextID (snd (Store_Delete i s)) = nextID s"
  by (simp add: Store_Delete_def split: option.splits)

lemma nextID_Store_Create: "nextID (snd (Store_Create attrs s)) = nextID s + 1"
  by (simp add: Store_Create_def Let_def)

lemma upt_Suc_shift: "[0..<Suc n] = 0 # map Suc [0..<n]"
  by (simp only: map_Suc_upt upt_conv_Cons [of 0 "Suc n"] zero_less_Suc if_True)

lemma minted_counter:
  "minted xs s = map (\<lambda>k. FormatInt (nextID s + of_nat (Suc k))) [0..<creates xs]"
proof (induction xs arbitrary: s)
  case Nil
  show ?case by simp
next
  case (Cons x xs)
  show ?case
  proof (cases x)
    case (OpCreate attrs)
    have "minted (x # xs) s = FormatInt (nextID s + 1) # minted xs (snd (Store_Create attrs s))"
      using OpCreate by (simp add: ID_Store_Create)
    also have "minted xs (snd (Store_Create attrs s))
        = map (\<lambda>k. FormatInt (nextID s + of_nat (Suc (Suc k)))) [0..<creates xs]"
      by (simp add: Cons.IH nextID_Store_Create add.assoc)
    also have "FormatInt (nextID s + 1) # \<dots>
        = map (\<lambda>k. FormatInt (nextID s + of_nat (Suc k))) (0 # map Suc [0..<creates xs])"
      by (simp add: comp_def)
    finally show ?thesis
      using OpCreate by (simp only: creates.simps upt_Suc_shift)
  next
    case (OpUpdate i a)
    then show ?thesis by (simp add: Cons.IH nextID_Store_Update)
  next
    case (OpDelete i)
    then show ?thesis by (simp add: Cons.IH nextID_Store_Delete)
  qed
qed

lemma sint_of_nat_small: "k < 2 ^ 63 \<Longrightarrow> sint (of_nat k :: 64 word) = int k"
proof -
  assume "k < 2 ^ 63"
  then have "int k < 2 ^ 63" by (metis of_nat_less_iff of_nat_numeral of_nat_power)
  moreover have "- (2 ^ 63) \<le> int k" by simp
  ultimately have "signed_take_bit 63 (int k) = int k"
    by (rule signed_take_bit_int_eq_self [rotated])
  moreover have "sint (of_nat k :: 64 word) = signed_take_bit 63 (int k)"
    by (simp add: signed_of_nat)
  ultimately show ?thesis by simp
qed

lemma FormatInt_of_nat: "k < 2 ^ 63 \<Longrightarrow> FormatInt (of_nat k) = decimal k"
  by (simp add: FormatInt_def sint_of_nat_small)

lemma creates_replicate: "creates (replicate n (OpCreate a)) = n"
  by (induction n) auto

lemma minted_nth:
  "i < creates xs \<Longrightarrow> minted xs s ! i = FormatInt (nextID s + of_nat (Suc i))"
  by (simp add: minted_counter)

lemma length_minted: "length (minted xs s) = creates xs"
  by (simp add: minted_counter)

lemma minted_NewStore_decimal:
  assumes "creates xs < 2 ^ 63"
  shows "minted xs NewStore = map (\<lambda>k. decimal (Suc k)) [0..<creates xs]"
  unfolding minted_counter
proof (rule map_cong [OF refl])
  fix k assume "k \<in> set [0..<creates xs]"
  then have "Suc k < 2 ^ 63" using assms by simp
  then show "FormatInt (nextID NewStore + of_nat (Suc k)) = decimal (Suc k)"
    using FormatInt_of_nat [of "Suc k"] by (simp add: NewStore_def)
qed

text \<open>
  Claim C10 (as amended). For every sequence of create, update and delete calls on a new
  store with fewer than \<open>2 ^ 63\<close> creates, the \<open>n\<close>-th create returns the decimal
  numeral of \<open>n\<close>, whatever updates and deletes come in between: the first identifier is
  \<open>''1''\<close> and the identifiers are consecutive. The counter equals the number of creates
  made, so no delete or update decrements or resets it, and no identifier is minted twice.
\<close>

theorem minted_decimal:
  assumes "creates xs < 2 ^ 63"
  shows "minted xs NewStore = map (\<lambda>k. decimal (Suc k)) [0..<creates xs]
    \<and> nextID (run xs NewStore) = of_nat (creates xs)
    \<and> distinct (minted xs NewStore)"
proof -
  have eq: "minted xs NewStore = map (\<lambda>k. decimal (Suc k)) [0..<creates xs]"
    using assms by (rule minted_NewStore_decimal)
  have "inj_on (\<lambda>k. decimal (Suc k)) (set [0..<creates xs])"
    by (auto simp: inj_on_def dest: decimal_inj)
  then have "distinct (minted xs NewStore)"
    unfolding eq by (simp add: distinct_map)
  moreover have "nextID (run xs NewStore) = of_nat (creates xs)"
    by (simp add: nextID_run NewStore_def)
  ultimately show ?thesis using eq by simp
qed

theorem minted_decimal_witness:
  "creates [OpCreate ada, OpCreate grace, OpDelete ''1'', OpUpdate ''2'' ada, OpCreate ada] < 2 ^ 63
   \<and> minted [OpCreate ada, OpCreate grace, OpDelete ''1'', OpUpdate ''2'' ada, OpCreate ada] NewStore
       = [''1'', ''2'', ''3'']"
  using minted_decimal [of "[OpCreate ada, OpCreate grace, OpDelete ''1'', OpUpdate ''2'' ada, OpCreate ada]"]
  by (simp add: decimal.simps digit_def upt_rec)

text \<open>
  Claim C10 as stated fails: the counter is an \<^verbatim>\<open>int64\<close> and wraps around, so the
  identifier that create number \<open>2 ^ 63\<close> returns is the numeral of the least 64-bit
  integer, not the numeral of \<open>2 ^ 63\<close>.
\<close>

theorem minted_overflow:
  "minted (replicate (2 ^ 63) (OpCreate ada)) NewStore ! (2 ^ 63 - 1) = ''-9223372036854775808''
   \<and> decimal (2 ^ 63) = ''9223372036854775808''"
proof -
  have "(2 ^ 63 - 1 :: nat) < creates (replicate (2 ^ 63) (OpCreate ada))"
    by (simp only: creates_replicate) simp
  then have "minted (replicate (2 ^ 63) (OpCreate ada)) NewStore ! (2 ^ 63 - 1)
      = FormatInt (nextID (NewStore :: Store) + of_nat (Suc (2 ^ 63 - 1)))"
    by (rule minted_nth)
  also have "\<dots> = FormatInt (2 ^ 63)"
    by (simp add: NewStore_def)
  also have "\<dots> = ''-9223372036854775808''"
    by (simp add: FormatInt_def decimal.simps digit_def)
  finally have a: "minted (replicate (2 ^ 63) (OpCreate ada)) NewStore ! (2 ^ 63 - 1)
      = ''-9223372036854775808''" .
  have b: "decimal (2 ^ 63) = ''9223372036854775808''"
    by (simp add: decimal.simps digit_def)
  from a b show ?thesis by (rule conjI)
qed

subsection \<open>Uniqueness and order of the identifiers\<close>

lemma numeral_val_minus: "numeral_val (CHR ''-'' # cs) = None"
  by (simp add: numeral_val_def digit_val_def)

lemma sint_inj: "sint (i :: 64 word) = sint j \<Longrightarrow> i = j"
  by (rule signed_word_eqI)

lemma FormatInt_inj: "FormatInt i = FormatInt j \<Longrightarrow> i = j"
proof -
  assume eq: "FormatInt i = FormatInt j"
  consider (nn) "sint i < 0" "sint j < 0" | (np) "sint i < 0" "\<not> sint j < 0"
    | (pn) "\<not> sint i < 0" "sint j < 0" | (pp) "\<not> sint i < 0" "\<not> sint j < 0"
    by blast
  then show "i = j"
  proof cases
    case nn
    then have "decimal (nat (- sint i)) = decimal (nat (- sint j))"
      using eq by (simp add: FormatInt_def)
    then have "nat (- sint i) = nat (- sint j)" by (rule decimal_inj)
    then have "sint i = sint j" using nn by simp
    then show ?thesis by (rule sint_inj)
  next
    case np
    then have "numeral_val (FormatInt i) = None" "numeral_val (FormatInt j) \<noteq> None"
      by (simp_all add: FormatInt_def numeral_val_minus numeral_val_decimal)
    then show ?thesis using eq by simp
  next
    case pn
    then have "numeral_val (FormatInt j) = None" "numeral_val (FormatInt i) \<noteq> None"
      by (simp_all add: FormatInt_def numeral_val_minus numeral_val_decimal)
    then show ?thesis using eq by simp
  next
    case pp
    then have "decimal (nat (sint i)) = decimal (nat (sint j))"
      using eq by (simp add: FormatInt_def)
    then have "nat (sint i) = nat (sint j)" by (rule decimal_inj)
    then have "sint i = sint j" using pp by simp
    then show ?thesis by (rule sint_inj)
  qed
qed

lemma of_nat_64_inj:
  assumes "j < 2 ^ 64" and "k < 2 ^ 64" and "(of_nat j :: 64 word) = of_nat k"
  shows "j = k"
proof -
  have "unat (of_nat j :: 64 word) = j"
    by (rule of_nat_inverse [OF refl]) (use assms(1) in simp)
  moreover have "unat (of_nat k :: 64 word) = k"
    by (rule of_nat_inverse [OF refl]) (use assms(2) in simp)
  ultimately show ?thesis using assms(3) by metis
qed

lemma id_less_decimal: "id_less (decimal m) (decimal n) = (m < n)"
  by (simp add: id_less_def numeral_val_decimal)

text \<open>
  Claim C2 (as amended). The identifiers that the creates of one store return are
  pairwise distinct, whatever deletes and updates come in between, as long as fewer than
  \<open>2 ^ 64\<close> creates are made; and as long as fewer than \<open>2 ^ 63\<close> are made, each is the
  decimal numeral of a number strictly greater than that of every earlier one.
\<close>

theorem minted_unique_increasing:
  "(creates xs < 2 ^ 64 \<longrightarrow> distinct (minted xs NewStore))
   \<and> (creates xs < 2 ^ 63 \<longrightarrow> sorted_wrt id_less (minted xs NewStore))"
proof (intro conjI impI)
  assume small: "creates xs < 2 ^ 64"
  have "inj_on (\<lambda>k. FormatInt (nextID NewStore + of_nat (Suc k))) (set [0..<creates xs])"
  proof (rule inj_onI)
    fix j k
    assume "j \<in> set [0..<creates xs]" and "k \<in> set [0..<creates xs]"
    then have "Suc j < 2 ^ 64" and "Suc k < 2 ^ 64" using small by simp_all
    moreover assume "FormatInt (nextID NewStore + of_nat (Suc j))
        = FormatInt (nextID NewStore + of_nat (Suc k))"
    then have "(of_nat (Suc j) :: 64 word) = of_nat (Suc k)"
      by (simp add: NewStore_def del: of_nat_Suc) (rule FormatInt_inj)
    ultimately have "Suc j = Suc k" by (rule of_nat_64_inj)
    then show "j = k" by simp
  qed
  then show "distinct (minted xs NewStore)"
    unfolding minted_counter by (simp add: distinct_map)
next
  assume "creates xs < 2 ^ 63"
  then have "minted xs NewStore = map (\<lambda>k. decimal (Suc k)) [0..<creates xs]"
    by (rule minted_NewStore_decimal)
  moreover have "sorted_wrt (\<lambda>j k. id_less (decimal (Suc j)) (decimal (Suc k))) [0..<creates xs]"
    by (simp add: id_less_decimal)
  ultimately show "sorted_wrt id_less (minted xs NewStore)"
    by (simp add: sorted_wrt_map)
qed

theorem minted_unique_increasing_witness:
  "creates [OpCreate ada, OpDelete ''1'', OpCreate grace] < 2 ^ 64
   \<and> creates [OpCreate ada, OpDelete ''1'', OpCreate grace] < 2 ^ 63
   \<and> minted [OpCreate ada, OpDelete ''1'', OpCreate grace] NewStore = [''1'', ''2'']
   \<and> distinct [''1'', ''2''] \<and> id_less ''1'' ''2''"
  using minted_unique_increasing [of "[OpCreate ada, OpDelete ''1'', OpCreate grace]"]
  by (simp add: store_eval)

text \<open>
  Claim C2 as stated fails. Identifiers are strings, and in the order in which the code
  compares them (the one \<^verbatim>\<open>List\<close> sorts by) the tenth identifier is smaller than the
  ninth. The counter is an \<^verbatim>\<open>int64\<close>: after \<open>2 ^ 64\<close> creates it is back at its first
  value, and the next create returns the identifier of the first one again.
\<close>

theorem minted_not_increasing:
  "minted (replicate 10 (OpCreate ada)) NewStore ! 8 = ''9''
   \<and> minted (replicate 10 (OpCreate ada)) NewStore ! 9 = ''10''
   \<and> (''10'' :: string) < ''9''
   \<and> minted (replicate (2 ^ 64 + 1) (OpCreate ada)) NewStore ! 0 = ''1''
   \<and> minted (replicate (2 ^ 64 + 1) (OpCreate ada)) NewStore ! (2 ^ 64) = ''1''"
proof -
  have ten: "i < 10 \<Longrightarrow> minted (replicate 10 (OpCreate ada)) NewStore ! i
      = FormatInt (nextID (NewStore :: Store) + of_nat (Suc i))" for i
    by (rule minted_nth) (simp only: creates_replicate)
  have big: "i < 2 ^ 64 + 1 \<Longrightarrow> minted (replicate (2 ^ 64 + 1) (OpCreate ada)) NewStore ! i
      = FormatInt (nextID (NewStore :: Store) + of_nat (Suc i))" for i
    by (rule minted_nth) (simp only: creates_replicate)
  have a: "minted (replicate 10 (OpCreate ada)) NewStore ! 8 = ''9''"
    by (subst ten) (simp_all add: NewStore_def FormatInt_def decimal.simps digit_def)
  have b: "minted (replicate 10 (OpCreate ada)) NewStore ! 9 = ''10''"
    by (subst ten) (simp_all add: NewStore_def FormatInt_def decimal.simps digit_def)
  have c: "(''10'' :: string) < ''9''" by simp
  have d: "minted (replicate (2 ^ 64 + 1) (OpCreate ada)) NewStore ! 0 = ''1''"
    by (subst big) (simp_all add: NewStore_def FormatInt_def decimal.simps digit_def)
  have wrap: "(of_nat (Suc (2 ^ 64)) :: 64 word) = 1"
    by simp
  have e: "minted (replicate (2 ^ 64 + 1) (OpCreate ada)) NewStore ! (2 ^ 64) = ''1''"
    by (subst big) (simp_all add: wrap NewStore_def FormatInt_def decimal.simps digit_def
        del: of_nat_Suc)
  from a b c d e show ?thesis by simp
qed

subsection \<open>Reachable stores\<close>

lemma set_update_cases:
  "(k', v') \<in> set (AList.update k v al) \<Longrightarrow> (k', v') = (k, v) \<or> (k', v') \<in> set al"
  by (induction al) (auto split: if_splits)

lemma set_delete_subset: "set (AList.delete k al) \<subseteq> set al"
  by (auto simp: AList.delete_eq)

lemma store_inv_NewStore: "store_inv NewStore"
  by (simp add: store_inv_def NewStore_def)

lemma store_inv_step: "store_inv s \<Longrightarrow> store_inv (step x s)"
proof (cases x)
  case (OpCreate attrs)
  assume "store_inv s"
  then show ?thesis using OpCreate
    by (auto simp: store_inv_def Store_Create_def Let_def distinct_update dest!: set_update_cases)
next
  case (OpUpdate i a)
  assume "store_inv s"
  then show ?thesis using OpUpdate
    by (auto simp: store_inv_def Store_Update_def Let_def distinct_update
        split: option.splits dest!: set_update_cases)
next
  case (OpDelete i)
  assume "store_inv s"
  then show ?thesis using OpDelete set_delete_subset [of i "users s"]
    by (auto simp: store_inv_def Store_Delete_def distinct_delete split: option.splits)
qed

lemma store_inv_run: "store_inv s \<Longrightarrow> store_inv (run xs s)"
  by (induction xs arbitrary: s) (auto simp: store_inv_step)

lemma insert_less_insort:
  "insert_less (\<lambda>a b. f a < f b) x ys = insort_key f x ys"
  for f :: "'a \<Rightarrow> 'b::linorder"
  by (induction ys) (auto simp: not_less)

lemma sort_Slice_sort_key: "sort_Slice (\<lambda>a b. f a < f b) xs = sort_key f xs"
  for f :: "'a \<Rightarrow> 'b::linorder"
  by (induction xs) (auto simp: sort_Slice_def insert_less_insort sort_key_def)

lemma sort_Slice_strict:
  fixes f :: "'a \<Rightarrow> 'b::linorder"
  assumes "distinct (map f xs)"
  shows "sorted_wrt (\<lambda>a b. f a < f b) (sort_Slice (\<lambda>a b. f a < f b) xs)"
proof -
  have "mset (map f (sort_key f xs)) = mset (map f xs)" by simp
  then have "distinct (map f (sort_key f xs))"
    using assms by (metis mset_eq_imp_distinct_iff)
  moreover have "sorted (map f (sort_key f xs))" by simp
  ultimately have "sorted_wrt (<) (map f (sort_key f xs))"
    by (simp add: strict_sorted_iff)
  then show ?thesis
    by (simp add: sort_Slice_sort_key sorted_wrt_map)
qed

lemma sort_Slice_order_free:
  fixes f :: "'a \<Rightarrow> 'b::linorder"
  assumes "mset ys = mset xs" and "distinct (map f xs)"
  shows "sort_Slice (\<lambda>a b. f a < f b) ys = sort_Slice (\<lambda>a b. f a < f b) xs"
proof -
  have "set ys = set xs" using assms(1) by (rule mset_eq_setD)
  moreover have "inj_on f (set xs)" using assms(2) by (simp add: distinct_map)
  ultimately have inj: "inj_on f (set ys)" by simp
  have ms: "mset ys = mset (sort_key f xs)" using assms(1) by simp
  have "sorted (map f (sort_key f xs))" by simp
  with ms inj have "sort_key f ys = sort_key f xs" by (rule sort_key_inj_key_eq)
  then show ?thesis by (simp add: sort_Slice_sort_key)
qed

lemma mset_sort_Slice:
  "mset (sort_Slice (\<lambda>a b. f a < f b) xs) = mset xs"
  for f :: "'a \<Rightarrow> 'b::linorder"
  by (simp add: sort_Slice_sort_key)

lemma store_inv_IDs: "store_inv s \<Longrightarrow> map ID (map snd (users s)) = map fst (users s)"
  by (auto simp: store_inv_def)

lemma store_inv_Get:
  "store_inv s \<Longrightarrow> (Store_Get k s = Some u) = ((k, u) \<in> set (users s))"
  by (simp add: store_inv_def Store_Get_def)

subsection \<open>List\<close>

text \<open>
  Claim C1. After any sequence of create, update and delete calls on a new store, and
  for every order in which the \<^verbatim>\<open>range\<close> loop may visit the entries of the map
  (any permutation \<open>entries\<close> of them), \<^verbatim>\<open>List\<close> returns the records strictly ascending
  by identifier, each record once, and a record is returned if and only if it is the one
  stored under its identifier; the result does not depend on the order of the visit; and
  for a store that holds nothing the result is the nil slice, an empty sequence. The
  order on identifiers is the one the code sorts by: Go's order on strings, bytewise
  lexicographic, in which \<open>''10''\<close> comes before \<open>''2''\<close>.
\<close>

theorem Store_List_sorted:
  assumes "mset entries = mset (users (run xs NewStore))"
  shows "sorted_wrt (\<lambda>a b. ID a < ID b) (elems (List_range entries))
    \<and> distinct (elems (List_range entries))
    \<and> (\<forall>u. u \<in> set (elems (List_range entries)) \<longleftrightarrow> Store_Get (ID u) (run xs NewStore) = Some u)
    \<and> List_range entries = Store_List (run xs NewStore)
    \<and> ((\<forall>k. Store_Get k (run xs NewStore) = None) \<longrightarrow> List_range entries = None)"
proof -
  define s where "s = run xs NewStore"
  have inv: "store_inv s"
    unfolding s_def by (rule store_inv_run [OF store_inv_NewStore])
  have ms: "mset (map snd entries) = mset (map snd (users s))"
    using assms by (simp add: s_def)
  have len: "length entries = length (users s)"
    using assms by (metis s_def size_mset)
  have keys: "map ID (map snd (users s)) = map fst (users s)"
    using inv by (rule store_inv_IDs)
  have dist: "distinct (map ID (map snd (users s)))"
    unfolding keys using inv by (simp add: store_inv_def)
  have dist': "distinct (map ID (map snd entries))"
    using ms dist by (metis mset_eq_imp_distinct_iff mset_map)
  have same: "List_range entries = Store_List s"
    using sort_Slice_order_free [OF ms dist] len by (simp add: List_range_def Store_List_def)
  have sorted: "sorted_wrt (\<lambda>a b. ID a < ID b) (elems (List_range entries))"
    using sort_Slice_strict [OF dist'] by (simp add: List_range_def elems_def)
  have "distinct (map snd (users s))" using dist by (simp only: distinct_map [of ID])
  then have "distinct (map snd entries)" using ms by (metis mset_eq_imp_distinct_iff)
  then have d: "distinct (elems (List_range entries))"
    by (simp add: List_range_def elems_def sort_Slice_sort_key)
  have mem: "u \<in> set (elems (List_range entries)) \<longleftrightarrow> Store_Get (ID u) s = Some u" for u
  proof -
    have "set (elems (List_range entries)) = snd ` set (users s)"
    proof (cases "entries = []")
      case True
      then show ?thesis using len by (simp add: List_range_def elems_def)
    next
      case False
      then have "set (elems (List_range entries)) = set (map snd entries)"
        by (simp add: List_range_def elems_def sort_Slice_sort_key)
      also have "\<dots> = set (map snd (users s))" using ms by (rule mset_eq_setD)
      finally show ?thesis by simp
    qed
    moreover have "(u \<in> snd ` set (users s)) = ((ID u, u) \<in> set (users s))"
      using inv by (force simp: store_inv_def)
    ultimately show ?thesis using inv by (simp add: store_inv_Get)
  qed
  have empty: "(\<forall>k. Store_Get k s = None) \<longrightarrow> List_range entries = None"
  proof
    assume "\<forall>k. Store_Get k s = None"
    then have "map_of (users s) = Map.empty"
      by (simp add: Store_Get_def fun_eq_iff)
    then have "users s = []"
      by (simp only: map_of_eq_empty_iff)
    then show "List_range entries = None" using len by (simp add: List_range_def)
  qed
  show ?thesis using sorted d mem same empty unfolding s_def by blast
qed

theorem Store_List_sorted_witness:
  "mset [(''2'', \<lparr>ID = ''2'', Attrs = grace\<rparr>), (''1'', \<lparr>ID = ''1'', Attrs = ada\<rparr>)]
     = mset (users (run [OpCreate ada, OpCreate grace] NewStore))
   \<and> List_range [(''2'', \<lparr>ID = ''2'', Attrs = grace\<rparr>), (''1'', \<lparr>ID = ''1'', Attrs = ada\<rparr>)]
     = Some [\<lparr>ID = ''1'', Attrs = ada\<rparr>, \<lparr>ID = ''2'', Attrs = grace\<rparr>]
   \<and> Store_List (run [OpCreate ada, OpCreate grace] NewStore)
     = Some [\<lparr>ID = ''1'', Attrs = ada\<rparr>, \<lparr>ID = ''2'', Attrs = grace\<rparr>]
   \<and> (\<forall>k. Store_Get k (run [] NewStore) = None) \<and> List_range [] = (None :: User slice)"
  using Store_List_sorted [of "[(''2'', \<lparr>ID = ''2'', Attrs = grace\<rparr>), (''1'', \<lparr>ID = ''1'', Attrs = ada\<rparr>)]"
      "[OpCreate ada, OpCreate grace]"]
    Store_List_sorted [of "[]" "[]"]
  by (simp add: store_eval List_range_def Store_List_def sort_Slice_def)

text \<open>Ten records: the tenth identifier sorts before the second.\<close>

lemma Store_List_ten:
  "take 3 (map ID (elems (Store_List (run (replicate 10 (OpCreate ada)) NewStore))))
     = [''1'', ''10'', ''2'']"
  by code_simp

subsection \<open>Identifiers that hold no record\<close>

lemma Store_Get_None_iff: "Store_Get k s = None \<longleftrightarrow> k \<notin> fst ` set (users s)"
  by (simp add: Store_Get_def map_of_eq_None_iff)

lemma absent_step:
  "Store_Get k s = None \<Longrightarrow> k \<notin> set (minted [x] s) \<Longrightarrow> Store_Get k (step x s) = None"
proof (cases x)
  case (OpCreate attrs)
  assume "Store_Get k s = None" and "k \<notin> set (minted [x] s)"
  then show ?thesis using OpCreate
    by (auto simp: Store_Get_def Store_Create_def Let_def update_conv')
next
  case (OpUpdate i a)
  assume "Store_Get k s = None"
  then show ?thesis using OpUpdate
    by (auto simp: Store_Get_def Store_Update_def Let_def update_conv' split: option.splits)
next
  case (OpDelete i)
  assume "Store_Get k s = None"
  then show ?thesis using OpDelete
    by (auto simp: Store_Get_def Store_Delete_def delete_conv' split: option.splits)
qed

lemma minted_Cons: "minted (x # xs) s = minted [x] s @ minted xs (step x s)"
  by (cases x) simp_all

lemma absent_run:
  "Store_Get k s = None \<Longrightarrow> k \<notin> set (minted xs s) \<Longrightarrow> Store_Get k (run xs s) = None"
proof (induction xs arbitrary: s)
  case Nil
  then show ?case by simp
next
  case (Cons x xs)
  from Cons.prems(2) have a: "k \<notin> set (minted [x] s)" and b: "k \<notin> set (minted xs (step x s))"
    by (simp_all add: minted_Cons [of x xs])
  from Cons.prems(1) a have "Store_Get k (step x s) = None" by (rule absent_step)
  then have "Store_Get k (run xs (step x s)) = None" using b by (rule Cons.IH)
  then show ?case by simp
qed

subsection \<open>Update\<close>

lemma cloneAttributes_fields:
  "Name (cloneAttributes attrs) = Name attrs"
  "Email (cloneAttributes attrs) = Email attrs"
  "Phone (cloneAttributes attrs) = Phone attrs"
  "Address (cloneAttributes attrs) = Address attrs"
  "Bio (cloneAttributes attrs) = Bio attrs"
  "elems (Tags (cloneAttributes attrs)) = elems (Tags attrs)"
  "elems (Avatar (cloneAttributes attrs)) = elems (Avatar attrs)"
  by (simp_all add: cloneAttributes_def Let_def elems_def append_nil_def split: option.splits)

text \<open>
  Claim C6. In every store state, \<^verbatim>\<open>Update\<close> with an identifier that holds no record
  fails with \<^verbatim>\<open>ErrNotFound\<close> and returns the very same state. With an identifier that
  holds a record it returns the record made of that identifier and the copy of the given
  attributes; afterwards that record is the one stored under the identifier, whatever was
  stored before, every other identifier holds what it held, and the counter is unchanged.
  The record returned and stored has the given identifier and the given name, email,
  phone, address and bio, and its tag list and avatar hold the given elements in the
  given order. An identifier holds no record if no create of the store has returned it,
  or if it has been deleted and no create has returned it since.
\<close>

theorem Store_Update_contract:
  "(Store_Get ident s = None \<longrightarrow> Store_Update ident attrs s = (Inl ErrNotFound, s))
   \<and> (Store_Get ident s \<noteq> None \<longrightarrow>
        fst (Store_Update ident attrs s) = Inr \<lparr>ID = ident, Attrs = cloneAttributes attrs\<rparr>
        \<and> Store_Get ident (snd (Store_Update ident attrs s))
            = Some \<lparr>ID = ident, Attrs = cloneAttributes attrs\<rparr>
        \<and> (\<forall>k. k \<noteq> ident \<longrightarrow> Store_Get k (snd (Store_Update ident attrs s)) = Store_Get k s)
        \<and> nextID (snd (Store_Update ident attrs s)) = nextID s
        \<and> (\<exists>u. fst (Store_Update ident attrs s) = Inr u
              \<and> Store_Get ident (snd (Store_Update ident attrs s)) = Some u
              \<and> ID u = ident
              \<and> Name (Attrs u) = Name attrs
              \<and> Email (Attrs u) = Email attrs
              \<and> Phone (Attrs u) = Phone attrs
              \<and> Address (Attrs u) = Address attrs
              \<and> Bio (Attrs u) = Bio attrs
              \<and> elems (Tags (Attrs u)) = elems (Tags attrs)
              \<and> elems (Avatar (Attrs u)) = elems (Avatar attrs)))
   \<and> (ident \<notin> set (minted xs NewStore) \<longrightarrow> Store_Get ident (run xs NewStore) = None)
   \<and> (ident \<notin> set (minted ys (snd (Store_Delete ident s))) \<longrightarrow>
        Store_Get ident (run ys (snd (Store_Delete ident s))) = None)"
proof -
  have "Store_Get ident (NewStore :: Store) = None" by (simp add: Store_Get_def NewStore_def)
  then have c: "ident \<notin> set (minted xs NewStore) \<longrightarrow> Store_Get ident (run xs NewStore) = None"
    by (simp add: absent_run)
  have "Store_Get ident (snd (Store_Delete ident s)) = None"
    by (simp add: Store_Get_def Store_Delete_def delete_conv' split: option.splits)
  then have d: "ident \<notin> set (minted ys (snd (Store_Delete ident s))) \<longrightarrow>
      Store_Get ident (run ys (snd (Store_Delete ident s))) = None"
    by (simp add: absent_run)
  have a: "Store_Get ident s = None \<longrightarrow> Store_Update ident attrs s = (Inl ErrNotFound, s)"
    by (simp add: Store_Get_def Store_Update_def)
  have b: "Store_Get ident s \<noteq> None \<longrightarrow>
        fst (Store_Update ident attrs s) = Inr \<lparr>ID = ident, Attrs = cloneAttributes attrs\<rparr>
        \<and> Store_Get ident (snd (Store_Update ident attrs s))
            = Some \<lparr>ID = ident, Attrs = cloneAttributes attrs\<rparr>
        \<and> (\<forall>k. k \<noteq> ident \<longrightarrow> Store_Get k (snd (Store_Update ident attrs s)) = Store_Get k s)
        \<and> nextID (snd (Store_Update ident attrs s)) = nextID s"
    by (auto simp: Store_Get_def Store_Update_def update_conv' Let_def split: option.splits)
  have e: "Store_Get ident s \<noteq> None \<longrightarrow>
        (\<exists>u. fst (Store_Update ident attrs s) = Inr u
              \<and> Store_Get ident (snd (Store_Update ident attrs s)) = Some u
              \<and> ID u = ident
              \<and> Name (Attrs u) = Name attrs
              \<and> Email (Attrs u) = Email attrs
              \<and> Phone (Attrs u) = Phone attrs
              \<and> Address (Attrs u) = Address attrs
              \<and> Bio (Attrs u) = Bio attrs
              \<and> elems (Tags (Attrs u)) = elems (Tags attrs)
              \<and> elems (Avatar (Attrs u)) = elems (Avatar attrs))"
  proof
    assume "Store_Get ident s \<noteq> None"
    with b have r: "fst (Store_Update ident attrs s) = Inr \<lparr>ID = ident, Attrs = cloneAttributes attrs\<rparr>"
      and g: "Store_Get ident (snd (Store_Update ident attrs s))
            = Some \<lparr>ID = ident, Attrs = cloneAttributes attrs\<rparr>"
      by blast+
    show "\<exists>u. fst (Store_Update ident attrs s) = Inr u
              \<and> Store_Get ident (snd (Store_Update ident attrs s)) = Some u
              \<and> ID u = ident
              \<and> Name (Attrs u) = Name attrs
              \<and> Email (Attrs u) = Email attrs
              \<and> Phone (Attrs u) = Phone attrs
              \<and> Address (Attrs u) = Address attrs
              \<and> Bio (Attrs u) = Bio attrs
              \<and> elems (Tags (Attrs u)) = elems (Tags attrs)
              \<and> elems (Avatar (Attrs u)) = elems (Avatar attrs)"
      by (rule exI [of _ "\<lparr>ID = ident, Attrs = cloneAttributes attrs\<rparr>"])
        (simp add: r g cloneAttributes_fields)
  qed
  from a b c d e show ?thesis by blast
qed

theorem Store_Update_contract_witness:
  "Store_Get ''9'' (run [OpCreate ada] NewStore) = None
   \<and> Store_Update ''9'' hopper (run [OpCreate ada] NewStore)
       = (Inl ErrNotFound, run [OpCreate ada] NewStore)
   \<and> ''9'' \<notin> set (minted [OpCreate ada] NewStore)
   \<and> Store_Get ''1'' (run [OpCreate ada] NewStore) \<noteq> None
   \<and> Store_Update ''1'' hopper (run [OpCreate ada] NewStore)
       = (Inr \<lparr>ID = ''1'', Attrs = hopper\<rparr>,
          \<lparr>users = [(''1'', \<lparr>ID = ''1'', Attrs = hopper\<rparr>)], nextID = 1\<rparr>)
   \<and> Phone hopper = ''555-0100'' \<and> Address hopper = ''Arlington''
   \<and> Bio hopper = ''Rear admiral'' \<and> elems (Tags hopper) = [''navy'', ''cobol'']
   \<and> elems (Avatar hopper) = [137, 80]
   \<and> ''1'' \<notin> set (minted [OpCreate grace] (snd (Store_Delete ''1'' (run [OpCreate ada] NewStore))))
   \<and> Store_Update ''1'' hopper
        (run [OpCreate grace] (snd (Store_Delete ''1'' (run [OpCreate ada] NewStore))))
       = (Inl ErrNotFound,
          run [OpCreate grace] (snd (Store_Delete ''1'' (run [OpCreate ada] NewStore))))"
  using Store_Update_contract [of "''9''" "run [OpCreate ada] NewStore" hopper "[OpCreate ada]" "[]"]
    Store_Update_contract [of "''1''" "run [OpCreate ada] NewStore" hopper "[]" "[OpCreate grace]"]
  by (simp add: store_eval hopper_def)

subsection \<open>Delete\<close>

text \<open>
  Claim C7. \<^verbatim>\<open>Delete\<close> returns whether the identifier held a record. If it held none,
  the result is false and the state is the very same. Afterwards the identifier holds no
  record, every other identifier holds what it held, the counter is unchanged, and a
  second \<^verbatim>\<open>Delete\<close> of the same identifier returns false and changes nothing.
\<close>

theorem Store_Delete_contract:
  "fst (Store_Delete ident s) = (Store_Get ident s \<noteq> None)
   \<and> (Store_Get ident s = None \<longrightarrow> Store_Delete ident s = (False, s))
   \<and> Store_Get ident (snd (Store_Delete ident s)) = None
   \<and> (\<forall>k. k \<noteq> ident \<longrightarrow> Store_Get k (snd (Store_Delete ident s)) = Store_Get k s)
   \<and> nextID (snd (Store_Delete ident s)) = nextID s
   \<and> Store_Delete ident (snd (Store_Delete ident s)) = (False, snd (Store_Delete ident s))"
  by (auto simp: Store_Get_def Store_Delete_def delete_conv' split: option.splits)

theorem Store_Delete_contract_witness:
  "Store_Get ''2'' (snd (Store_Create ada NewStore)) = None
   \<and> Store_Delete ''2'' (snd (Store_Create ada NewStore))
       = (False, snd (Store_Create ada NewStore))
   \<and> ''1'' \<noteq> ''2''
   \<and> Store_Get ''1'' (snd (Store_Delete ''2'' (snd (Store_Create ada NewStore))))
       = Some \<lparr>ID = ''1'', Attrs = ada\<rparr>"
  using Store_Delete_contract [of "''2''" "snd (Store_Create ada NewStore)"]
  by (simp add: store_eval)

section \<open>Properties of the service\<close>

lemma Contains_char: "Contains s [c] \<longleftrightarrow> c \<in> set s"
proof
  assume "Contains s [c]"
  then obtain ps ss where "s = ps @ [c] @ ss" by (auto simp: Contains_def sublist_def)
  then show "c \<in> set s" by simp
next
  assume "c \<in> set s"
  then obtain ps ss where "s = ps @ c # ss" by (meson split_list)
  then have "s = ps @ [c] @ ss" by simp
  then show "Contains s [c]" unfolding Contains_def sublist_def by blast
qed

lemma normalizeTags_filter:
  "normalizeTags clean tags = clean @ filter (\<lambda>t. t \<noteq> []) (map TrimSpace tags)"
  by (induction tags arbitrary: clean) (simp_all add: Let_def)

lemma normalizeAttributes_fields:
  "Name (normalizeAttributes attrs) = TrimSpace (Name attrs)"
  "Email (normalizeAttributes attrs) = TrimSpace (Email attrs)"
  "Phone (normalizeAttributes attrs) = TrimSpace (Phone attrs)"
  "Address (normalizeAttributes attrs) = TrimSpace (Address attrs)"
  "Bio (normalizeAttributes attrs) = TrimSpace (Bio attrs)"
  "elems (Tags (normalizeAttributes attrs))
     = filter (\<lambda>t. t \<noteq> []) (map TrimSpace (elems (Tags attrs)))"
  "Avatar (normalizeAttributes attrs) = Avatar attrs"
  by (simp_all add: normalizeAttributes_def Let_def normalizeTags_filter elems_def
      split: option.splits)

lemma validateIdentifier_None: "validateIdentifier ident = None \<longleftrightarrow> \<not> whitespace_only ident"
  by (simp add: validateIdentifier_def TrimSpace_empty_iff)

lemma validateIdentifier_FormatInt: "validateIdentifier (FormatInt i) = None"
  by (simp add: validateIdentifier_def TrimSpace_FormatInt FormatInt_nonempty)

lemma Store_Get_Create:
  "Store_Get (ID (fst (Store_Create attrs s))) (snd (Store_Create attrs s))
     = Some (fst (Store_Create attrs s))"
  by (simp add: Store_Get_def Store_Create_def Let_def update_conv')

subsection \<open>Create, then get\<close>

text \<open>
  Claim C3. For every attribute bundle whose normalized form passes validation, and in
  every store state, the service's create returns a record, and the service's get on the
  identifier of that record returns the same record. Its attribute bundle equals the
  normalized form of the input, field by field: name, email, phone, address and bio are
  the trimmed input fields, the tags are the trimmed input tags without those that are
  empty after trimming, in their order, and the avatar is the input avatar. Tag list and
  avatar are compared as sequences: the stored bundle is the copy that
  \<^verbatim>\<open>cloneAttributes\<close> makes of the normalized input, and where the normalized input has
  an empty slice that is not nil, the copy has the nil slice.
\<close>

theorem Service_Create_then_Get:
  assumes "validatePayload (normalizeAttributes attrs) = None"
  shows "\<exists>u. fst (Service_Create attrs s) = Inr u
    \<and> Service_Get (ID u) (snd (Service_Create attrs s)) = Inr u
    \<and> Attrs u = cloneAttributes (normalizeAttributes attrs)
    \<and> Name (Attrs u) = Name (normalizeAttributes attrs)
    \<and> Email (Attrs u) = Email (normalizeAttributes attrs)
    \<and> Phone (Attrs u) = Phone (normalizeAttributes attrs)
    \<and> Address (Attrs u) = Address (normalizeAttributes attrs)
    \<and> Bio (Attrs u) = Bio (normalizeAttributes attrs)
    \<and> elems (Tags (Attrs u)) = elems (Tags (normalizeAttributes attrs))
    \<and> elems (Avatar (Attrs u)) = elems (Avatar (normalizeAttributes attrs))
    \<and> Name (Attrs u) = TrimSpace (Name attrs)
    \<and> Email (Attrs u) = TrimSpace (Email attrs)
    \<and> Phone (Attrs u) = TrimSpace (Phone attrs)
    \<and> Address (Attrs u) = TrimSpace (Address attrs)
    \<and> Bio (Attrs u) = TrimSpace (Bio attrs)
    \<and> elems (Tags (Attrs u)) = filter (\<lambda>t. t \<noteq> []) (map TrimSpace (elems (Tags attrs)))
    \<and> elems (Avatar (Attrs u)) = elems (Avatar attrs)"
proof -
  define clean where "clean = normalizeAttributes attrs"
  define u where "u = fst (Store_Create clean s)"
  have r: "Service_Create attrs s = (Inr u, snd (Store_Create clean s))"
    using assms by (simp add: Service_Create_def clean_def u_def Let_def)
  have idu: "ID u = FormatInt (nextID s + 1)" by (simp add: u_def ID_Store_Create)
  have "Store_Get (ID u) (snd (Store_Create clean s)) = Some u"
    unfolding u_def by (rule Store_Get_Create)
  then have g: "Service_Get (ID u) (snd (Service_Create attrs s)) = Inr u"
    by (simp add: Service_Get_def r idu validateIdentifier_FormatInt)
  have a: "Attrs u = cloneAttributes clean" by (simp add: u_def Store_Create_def Let_def)
  have f: "fst (Service_Create attrs s) = Inr u" by (simp add: r)
  show ?thesis
    by (rule exI [of _ u])
      (simp add: f g a cloneAttributes_fields normalizeAttributes_fields clean_def)
qed

theorem Service_Create_then_Get_witness:
  "validatePayload (normalizeAttributes lin) = None
   \<and> (\<exists>u. fst (Service_Create lin NewStore) = Inr u
        \<and> Service_Get (ID u) (snd (Service_Create lin NewStore)) = Inr u
        \<and> Name (Attrs u) = ''Lin'' \<and> Email (Attrs u) = ''lin@example.com''
        \<and> elems (Tags (Attrs u)) = [''dev''] \<and> elems (Avatar (Attrs u)) = [1, 2])"
proof -
  have h: "validatePayload (normalizeAttributes lin) = None" by code_simp
  have ev: "TrimSpace (Name lin) = ''Lin''" "TrimSpace (Email lin) = ''lin@example.com''"
    "filter (\<lambda>t. t \<noteq> []) (map TrimSpace (elems (Tags lin))) = [''dev'']"
    "elems (Avatar lin) = [1, 2]"
    by code_simp+
  from Service_Create_then_Get [OF h, of NewStore] ev h show ?thesis
    by (simp only:) blast
qed

subsection \<open>Validation\<close>

text \<open>
  Claim C5. The service's create fails exactly if the trimmed name is empty (an
  InvalidInput error with the detail \<open>name is required\<close>) or else the trimmed email is
  empty or has no \<open>@\<close> (an InvalidInput error with the detail \<open>email must contain '@'\<close>);
  it fails for no other reason, and a failed create leaves the store as it was. Get,
  delete and update fail with the InvalidInput error \<open>id is required\<close> exactly if the
  identifier is white space only (the empty string included); update then checks the
  attributes as create does; otherwise these three fail only with NotFound, exactly if
  the identifier holds no record. The text of an InvalidInput error is
  \<open>invalid user input: \<close> followed by the detail.
\<close>

theorem Service_validation:
  "fst (Service_Create attrs s) =
     (if TrimSpace (Name attrs) = [] then Inl (ErrInvalidInput ''name is required'')
      else if TrimSpace (Email attrs) = [] \<or> CHR ''@'' \<notin> set (TrimSpace (Email attrs))
      then Inl (ErrInvalidInput (''email must contain '' @ [CHR 0x27, CHR ''@'', CHR 0x27]))
      else Inr (fst (Store_Create (normalizeAttributes attrs) s)))
   \<and> ((\<exists>err. fst (Service_Create attrs s) = Inl err)
        \<longleftrightarrow> TrimSpace (Name attrs) = [] \<or> TrimSpace (Email attrs) = []
            \<or> CHR ''@'' \<notin> set (TrimSpace (Email attrs)))
   \<and> ((\<exists>err. fst (Service_Create attrs s) = Inl err) \<longrightarrow> snd (Service_Create attrs s) = s)
   \<and> Service_Get ident s =
     (if whitespace_only ident then Inl (ErrInvalidInput ''id is required'')
      else case Store_Get ident s of None \<Rightarrow> Inl ErrNotFound | Some u \<Rightarrow> Inr u)
   \<and> fst (Service_Delete ident s) =
     (if whitespace_only ident then Some (ErrInvalidInput ''id is required'')
      else if Store_Get ident s = None then Some ErrNotFound else None)
   \<and> fst (Service_Update ident attrs s) =
     (if whitespace_only ident then Inl (ErrInvalidInput ''id is required'')
      else if TrimSpace (Name attrs) = [] then Inl (ErrInvalidInput ''name is required'')
      else if TrimSpace (Email attrs) = [] \<or> CHR ''@'' \<notin> set (TrimSpace (Email attrs))
      then Inl (ErrInvalidInput (''email must contain '' @ [CHR 0x27, CHR ''@'', CHR 0x27]))
      else if Store_Get ident s = None then Inl ErrNotFound
      else Inr \<lparr>ID = ident, Attrs = cloneAttributes (normalizeAttributes attrs)\<rparr>)"
proof -
  have at: "Contains e ''@'' \<longleftrightarrow> CHR ''@'' \<in> set e" for e by (rule Contains_char)
  have vp: "validatePayload (normalizeAttributes attrs) =
     (if TrimSpace (Name attrs) = [] then Some (ErrInvalidInput ''name is required'')
      else if TrimSpace (Email attrs) = [] \<or> CHR ''@'' \<notin> set (TrimSpace (Email attrs))
      then Some (ErrInvalidInput (''email must contain '' @ [CHR 0x27, CHR ''@'', CHR 0x27]))
      else None)"
    by (simp only: validatePayload_def normalizeAttributes_fields at)
  have vi: "validateIdentifier ident =
     (if whitespace_only ident then Some (ErrInvalidInput ''id is required'') else None)"
    by (simp add: validateIdentifier_def TrimSpace_empty_iff)
  have c: "fst (Service_Create attrs s) =
     (if TrimSpace (Name attrs) = [] then Inl (ErrInvalidInput ''name is required'')
      else if TrimSpace (Email attrs) = [] \<or> CHR ''@'' \<notin> set (TrimSpace (Email attrs))
      then Inl (ErrInvalidInput (''email must contain '' @ [CHR 0x27, CHR ''@'', CHR 0x27]))
      else Inr (fst (Store_Create (normalizeAttributes attrs) s)))"
    unfolding Service_Create_def Let_def vp by simp
  have c2: "(\<exists>err. fst (Service_Create attrs s) = Inl err)
        \<longleftrightarrow> TrimSpace (Name attrs) = [] \<or> TrimSpace (Email attrs) = []
            \<or> CHR ''@'' \<notin> set (TrimSpace (Email attrs))"
    unfolding c by auto
  have c3: "(\<exists>err. fst (Service_Create attrs s) = Inl err) \<longrightarrow> snd (Service_Create attrs s) = s"
    unfolding Service_Create_def Let_def vp by auto
  have g: "Service_Get ident s =
     (if whitespace_only ident then Inl (ErrInvalidInput ''id is required'')
      else case Store_Get ident s of None \<Rightarrow> Inl ErrNotFound | Some u \<Rightarrow> Inr u)"
    unfolding Service_Get_def vi by simp
  have d: "fst (Service_Delete ident s) =
     (if whitespace_only ident then Some (ErrInvalidInput ''id is required'')
      else if Store_Get ident s = None then Some ErrNotFound else None)"
    unfolding Service_Delete_def vi
    by (simp add: Store_Delete_def Store_Get_def split: option.splits)
  have u: "fst (Service_Update ident attrs s) =
     (if whitespace_only ident then Inl (ErrInvalidInput ''id is required'')
      else if TrimSpace (Name attrs) = [] then Inl (ErrInvalidInput ''name is required'')
      else if TrimSpace (Email attrs) = [] \<or> CHR ''@'' \<notin> set (TrimSpace (Email attrs))
      then Inl (ErrInvalidInput (''email must contain '' @ [CHR 0x27, CHR ''@'', CHR 0x27]))
      else if Store_Get ident s = None then Inl ErrNotFound
      else Inr \<lparr>ID = ident, Attrs = cloneAttributes (normalizeAttributes attrs)\<rparr>)"
    unfolding Service_Update_def Let_def vp vi
    by (simp add: Store_Update_def Store_Get_def Let_def split: option.splits)
  from c c2 c3 g d u show ?thesis by (intro conjI)
qed

theorem Service_validation_witness:
  "fst (Service_Create (ada\<lparr>Name := ''  ''\<rparr>) NewStore) = Inl (ErrInvalidInput ''name is required'')
   \<and> fst (Service_Create (ada\<lparr>Email := ''ada.example.com''\<rparr>) NewStore)
       = Inl (ErrInvalidInput (''email must contain '' @ [CHR 0x27, CHR ''@'', CHR 0x27]))
   \<and> snd (Service_Create (ada\<lparr>Email := ''ada.example.com''\<rparr>) NewStore) = NewStore
   \<and> fst (Service_Create ada NewStore) = Inr \<lparr>ID = ''1'', Attrs = ada\<rparr>
   \<and> whitespace_only [CHR 0x20, CHR 0x09]
   \<and> Service_Get [CHR 0x20, CHR 0x09] NewStore = Inl (ErrInvalidInput ''id is required'')
   \<and> fst (Service_Delete [CHR 0x20, CHR 0x09] NewStore) = Some (ErrInvalidInput ''id is required'')
   \<and> fst (Service_Update [CHR 0x20, CHR 0x09] ada NewStore) = Inl (ErrInvalidInput ''id is required'')
   \<and> \<not> whitespace_only ''7''
   \<and> Service_Get ''7'' NewStore = Inl ErrNotFound"
proof -
  have fld: "Name ada = ''Ada''" "Email ada = ''ada@example.com''"
    by (simp_all add: ada_def)
  have ev: "TrimSpace ''  '' = []"
    "TrimSpace ''ada.example.com'' = ''ada.example.com''"
    "TrimSpace ''Ada'' = ''Ada''" "TrimSpace ''ada@example.com'' = ''ada@example.com''"
    "fst (Store_Create (normalizeAttributes ada) NewStore) = \<lparr>ID = ''1'', Attrs = ada\<rparr>"
    "Store_Get ''7'' NewStore = None"
    by code_simp+
  have ws: "whitespace_only [CHR 0x20, CHR 0x09]" "\<not> whitespace_only ''7''"
    unfolding TrimSpace_empty_iff [symmetric] by code_simp+
  show ?thesis
    using Service_validation [of "ada\<lparr>Name := ''  ''\<rparr>" NewStore "[CHR 0x20, CHR 0x09]"]
      Service_validation [of "ada\<lparr>Email := ''ada.example.com''\<rparr>" NewStore "''7''"]
      Service_validation [of ada NewStore "[CHR 0x20, CHR 0x09]"]
    by (simp add: fld ev ws)
qed

subsection \<open>Identifiers with surrounding white space\<close>

lemma keys_update: "fst ` set (AList.update k v al) = insert k (fst ` set al)"
  by (simp add: dom_update)

lemma keys_step:
  "k \<in> fst ` set (users (step x s)) \<Longrightarrow> k \<in> fst ` set (users s) \<or> (\<exists>i. k = FormatInt i)"
proof (cases x)
  case (OpCreate attrs)
  assume "k \<in> fst ` set (users (step x s))"
  then show ?thesis using OpCreate
    by (auto simp: Store_Create_def Let_def keys_update)
next
  case (OpUpdate i a)
  assume "k \<in> fst ` set (users (step x s))"
  moreover have "map_of (users s) i = Some v \<Longrightarrow> i \<in> fst ` set (users s)" for v
    by (metis map_of_eq_None_iff option.distinct(1))
  ultimately show ?thesis using OpUpdate
    by (auto simp: Store_Update_def Let_def keys_update split: option.splits)
next
  case (OpDelete i)
  assume "k \<in> fst ` set (users (step x s))"
  then show ?thesis using OpDelete set_delete_subset [of i "users s"]
    by (auto simp: Store_Delete_def split: option.splits)
qed

lemma keys_run:
  "k \<in> fst ` set (users (run xs s)) \<Longrightarrow> k \<in> fst ` set (users s) \<or> (\<exists>i. k = FormatInt i)"
proof (induction xs arbitrary: s)
  case Nil
  then show ?case by simp
next
  case (Cons x xs)
  then have "k \<in> fst ` set (users (step x s)) \<or> (\<exists>i. k = FormatInt i)" by simp
  then show ?case using keys_step by blast
qed

lemma keys_trimmed:
  "Store_Get k (run xs NewStore) = Some u \<Longrightarrow> TrimSpace k = k"
proof -
  assume "Store_Get k (run xs NewStore) = Some u"
  then have "k \<in> fst ` set (users (run xs NewStore))"
    by (metis Store_Get_None_iff option.distinct(1))
  then have "\<exists>i. k = FormatInt i"
    using keys_run [of k xs NewStore] by (simp add: NewStore_def)
  then show ?thesis by (auto simp: TrimSpace_FormatInt)
qed

lemma Service_Get_trimmed:
  assumes "TrimSpace p \<noteq> []" and "Store_Get (TrimSpace p) s = Some u"
  shows "Service_Get (TrimSpace p) s = Inr u"
  using assms by (simp add: Service_Get_def validateIdentifier_def TrimSpace_idem)

text \<open>
  Where the identifier is trimmed. The service's get, update and delete trim the
  identifier only to check that it is not empty; the store is then asked for the
  identifier exactly as supplied. The gRPC entry points \<^verbatim>\<open>GetUser\<close>, \<^verbatim>\<open>UpdateUser\<close> and
  \<^verbatim>\<open>DeleteUser\<close> trim the identifier before they call the service: there, for every
  stored record and every identifier whose trimmed form is the (non-empty) identifier of
  that record, get returns the record, delete removes it and update with valid attributes
  replaces it. Called directly on a store reached from the new store, as the HTTP
  handlers call them with the path parameter, the service's get, update and delete never
  resolve an identifier that has surrounding white space: identifiers in the store have
  none, so get and delete report NotFound and update returns no record.
\<close>

theorem handlers_trim_identifier:
  "(TrimSpace p \<noteq> [] \<and> Store_Get (TrimSpace p) s = Some u \<longrightarrow>
      GetUser p s = Inr (toProto u)
      \<and> DeleteUser p s = (Inr (), snd (Store_Delete (TrimSpace p) s))
      \<and> (validatePayload (normalizeAttributes (protoToAttributes (pbName req) (pbEmail req)
             (pbPhone req) (pbAddress req) (pbBio req) (pbTags req) (pbAvatar req))) = None \<longrightarrow>
          fst (UpdateUser (req\<lparr>pbId := p\<rparr>) s)
            = Inr (toProto \<lparr>ID = TrimSpace p, Attrs = cloneAttributes (normalizeAttributes
                (protoToAttributes (pbName req) (pbEmail req) (pbPhone req) (pbAddress req)
                   (pbBio req) (pbTags req) (pbAvatar req)))\<rparr>)))
   \<and> (TrimSpace p \<noteq> [] \<longrightarrow>
        Service_Get p s = (case Store_Get p s of None \<Rightarrow> Inl ErrNotFound | Some v \<Rightarrow> Inr v))
   \<and> (TrimSpace p \<noteq> [] \<and> TrimSpace p \<noteq> p \<longrightarrow>
        Service_Get p (run xs NewStore) = Inl ErrNotFound
        \<and> fst (Service_Delete p (run xs NewStore)) = Some ErrNotFound
        \<and> (\<forall>v. fst (Service_Update p attrs (run xs NewStore)) \<noteq> Inr v))"
proof (intro conjI impI)
  assume h: "TrimSpace p \<noteq> [] \<and> Store_Get (TrimSpace p) s = Some u"
  then have vi: "validateIdentifier (TrimSpace p) = None"
    by (simp add: validateIdentifier_def TrimSpace_idem)
  show "GetUser p s = Inr (toProto u)"
    using h by (simp add: GetUser_def Service_Get_trimmed)
  show "DeleteUser p s = (Inr (), snd (Store_Delete (TrimSpace p) s))"
    using h by (simp add: DeleteUser_def Service_Delete_def vi Store_Delete_def Store_Get_def)
  assume "validatePayload (normalizeAttributes (protoToAttributes (pbName req) (pbEmail req)
             (pbPhone req) (pbAddress req) (pbBio req) (pbTags req) (pbAvatar req))) = None"
  then show "fst (UpdateUser (req\<lparr>pbId := p\<rparr>) s)
            = Inr (toProto \<lparr>ID = TrimSpace p, Attrs = cloneAttributes (normalizeAttributes
                (protoToAttributes (pbName req) (pbEmail req) (pbPhone req) (pbAddress req)
                   (pbBio req) (pbTags req) (pbAvatar req)))\<rparr>)"
    using h by (simp add: UpdateUser_def Service_Update_def vi Store_Update_def Store_Get_def Let_def)
next
  assume "TrimSpace p \<noteq> []"
  then show "Service_Get p s = (case Store_Get p s of None \<Rightarrow> Inl ErrNotFound | Some v \<Rightarrow> Inr v)"
    by (simp add: Service_Get_def validateIdentifier_def)
next
  assume h: "TrimSpace p \<noteq> [] \<and> TrimSpace p \<noteq> p"
  then have absent: "Store_Get p (run xs NewStore) = None"
    using keys_trimmed [of p xs] by (cases "Store_Get p (run xs NewStore)") auto
  have vi: "validateIdentifier p = None" using h by (simp add: validateIdentifier_def)
  show "Service_Get p (run xs NewStore) = Inl ErrNotFound"
    by (simp add: Service_Get_def vi absent)
  show "fst (Service_Delete p (run xs NewStore)) = Some ErrNotFound"
    using absent by (simp add: Service_Delete_def vi Store_Delete_def Store_Get_def)
  show "\<forall>v. fst (Service_Update p attrs (run xs NewStore)) \<noteq> Inr v"
    using absent
    by (auto simp: Service_Update_def vi Store_Update_def Store_Get_def Let_def
        split: option.splits)
qed

theorem handlers_trim_identifier_witness:
  "TrimSpace '' 1 '' \<noteq> [] \<and> TrimSpace '' 1 '' \<noteq> '' 1 ''
   \<and> Store_Get (TrimSpace '' 1 '') (run [OpCreate ada] NewStore) = Some \<lparr>ID = ''1'', Attrs = ada\<rparr>
   \<and> GetUser '' 1 '' (run [OpCreate ada] NewStore) = Inr (toProto \<lparr>ID = ''1'', Attrs = ada\<rparr>)
   \<and> fst (DeleteUser '' 1 '' (run [OpCreate ada] NewStore)) = Inr ()
   \<and> validatePayload (normalizeAttributes (protoToAttributes ''Grace'' ''grace@example.com''
        [] [] [] None None)) = None
   \<and> fst (UpdateUser \<lparr>pbId = '' 1 '', pbName = ''Grace'', pbEmail = ''grace@example.com'',
        pbPhone = [], pbAddress = [], pbBio = [], pbTags = None, pbAvatar = None\<rparr>
        (run [OpCreate ada] NewStore))
      = Inr \<lparr>pbId = ''1'', pbName = ''Grace'', pbEmail = ''grace@example.com'',
        pbPhone = [], pbAddress = [], pbBio = [], pbTags = None, pbAvatar = None\<rparr>
   \<and> Service_Get '' 1 '' (run [OpCreate ada] NewStore) = Inl ErrNotFound"
proof -
  have ev: "TrimSpace '' 1 '' = ''1''"
    "Store_Get ''1'' (run [OpCreate ada] NewStore) = Some \<lparr>ID = ''1'', Attrs = ada\<rparr>"
    "validatePayload (normalizeAttributes (protoToAttributes ''Grace'' ''grace@example.com''
        [] [] [] None None)) = None"
    "toProto \<lparr>ID = ''1'', Attrs = cloneAttributes (normalizeAttributes
        (protoToAttributes ''Grace'' ''grace@example.com'' [] [] [] None None))\<rparr>
      = \<lparr>pbId = ''1'', pbName = ''Grace'', pbEmail = ''grace@example.com'',
        pbPhone = [], pbAddress = [], pbBio = [], pbTags = None, pbAvatar = None\<rparr>"
    by code_simp+
  have a: "TrimSpace '' 1 '' \<noteq> []
      \<and> Store_Get (TrimSpace '' 1 '') (run [OpCreate ada] NewStore)
          = Some \<lparr>ID = ''1'', Attrs = ada\<rparr>"
    by (simp add: ev del: run.simps)
  have b: "TrimSpace '' 1 '' \<noteq> [] \<and> TrimSpace '' 1 '' \<noteq> '' 1 ''"
    by (simp add: ev)
  note t = handlers_trim_identifier [of "'' 1 ''" "run [OpCreate ada] NewStore"
        "\<lparr>ID = ''1'', Attrs = ada\<rparr>"
        "\<lparr>pbId = [], pbName = ''Grace'', pbEmail = ''grace@example.com'',
          pbPhone = [], pbAddress = [], pbBio = [], pbTags = None, pbAvatar = None\<rparr>"
        "[OpCreate ada]" ada]
  from t a have g: "GetUser '' 1 '' (run [OpCreate ada] NewStore)
      = Inr (toProto \<lparr>ID = ''1'', Attrs = ada\<rparr>)"
    by blast
  from t a have d: "fst (DeleteUser '' 1 '' (run [OpCreate ada] NewStore)) = Inr ()"
    by (metis fst_conv)
  from t a have u: "fst (UpdateUser \<lparr>pbId = '' 1 '', pbName = ''Grace'',
        pbEmail = ''grace@example.com'', pbPhone = [], pbAddress = [], pbBio = [],
        pbTags = None, pbAvatar = None\<rparr> (run [OpCreate ada] NewStore))
      = Inr \<lparr>pbId = ''1'', pbName = ''Grace'', pbEmail = ''grace@example.com'',
        pbPhone = [], pbAddress = [], pbBio = [], pbTags = None, pbAvatar = None\<rparr>"
    by (simp add: ev del: run.simps)
  from t b have n: "Service_Get '' 1 '' (run [OpCreate ada] NewStore) = Inl ErrNotFound"
    by blast
  from a b g d u n ev(3) show ?thesis by blast
qed

text \<open>
  Claim C4. The service's get, update and delete are to trim the identifier before the
  store lookup, and so to resolve an identifier that differs from a stored one only by
  surrounding white space. The code does not: with the record \<open>''1''\<close> stored, the
  service's get, update and delete on \<open>'' 1 ''\<close> (the identifier with a space on each
  side, whose trimmed form is \<open>''1''\<close>) pass the validation, look up the identifier as
  supplied and report NotFound.
\<close>

theorem Service_Get_untrimmed:
  "Store_Get ''1'' (run [OpCreate ada] NewStore) = Some \<lparr>ID = ''1'', Attrs = ada\<rparr>
   \<and> TrimSpace '' 1 '' = ''1''
   \<and> Service_Get '' 1 '' (run [OpCreate ada] NewStore) = Inl ErrNotFound
   \<and> fst (Service_Update '' 1 '' grace (run [OpCreate ada] NewStore)) = Inl ErrNotFound
   \<and> fst (Service_Delete '' 1 '' (run [OpCreate ada] NewStore)) = Some ErrNotFound"
  by code_simp

section \<open>Properties of the store on references\<close>

lemmas heap_eval =
  Store_Create_ref_def Store_Update_ref_def cloneAttributes_ref_def append_nil_ref_def
  alloc_def read_def write_at_def after_write_def valid_ref_def heap0_def ada_ref_def
  NewStore_def Store_Get_def Let_def FormatInt_def decimal.simps digit_def

lemma alloc_frame: "a < fresh m \<Longrightarrow> cells (snd (alloc xs m)) a = cells m a"
  by (simp add: alloc_def)

lemma append_nil_ref_frame:
  "a < fresh m \<Longrightarrow> cells (snd (append_nil_ref src m)) a = cells m a"
  by (simp add: append_nil_ref_def alloc_def)

lemma append_nil_ref_read:
  "read (snd (append_nil_ref src m)) (fst (append_nil_ref src m)) = read m src"
  by (simp add: append_nil_ref_def alloc_def read_def)

lemma append_nil_ref_fresh:
  "fst (append_nil_ref src m) = NilSlice
   \<or> (\<exists>n. fst (append_nil_ref src m) = SliceRef (fresh m) 0 n n)"
  by (simp add: append_nil_ref_def alloc_def)

lemma write_at_other:
  fixes m m' m0 :: "'a mem"
  assumes "write_at sl i v m = Some m'" and "valid_ref m0 sl"
    and "r = NilSlice \<or> (\<exists>off n c. r = SliceRef (fresh m0) off n c)"
  shows "read m' r = read m r"
proof (cases sl)
  case NilSlice
  then show ?thesis using assms(1) by (simp add: write_at_def)
next
  case (SliceRef a off n c)
  then have "a < fresh m0" using assms(2) by (simp add: valid_ref_def)
  moreover have "m' = m\<lparr>cells := (cells m)(a := (cells m a)[off + i := v])\<rparr>"
    using assms(1) SliceRef by (simp add: write_at_def split: if_splits)
  ultimately show ?thesis using assms(3) by (auto simp: read_def)
qed

lemma read_NilSlice: "read m NilSlice = []"
  by (simp add: read_def)

text \<open>What the copy made by \<^verbatim>\<open>cloneAttributes\<close> guarantees for one slice field.\<close>

lemma clone_field:
  fixes m :: "'a mem"
  assumes "valid_ref m src"
  defines "r \<equiv> (if src \<noteq> NilSlice then fst (append_nil_ref src m) else src)"
    and "m' \<equiv> (if src \<noteq> NilSlice then snd (append_nil_ref src m) else m)"
  shows "read m' r = read m src"
    and "\<forall>a < fresh m. cells m' a = cells m a"
    and "\<forall>i v m''. write_at src i v m' = Some m'' \<longrightarrow> read m'' r = read m' r"
proof -
  show "read m' r = read m src"
    by (simp add: r_def m'_def append_nil_ref_read)
  show "\<forall>a < fresh m. cells m' a = cells m a"
    by (simp add: m'_def append_nil_ref_frame)
  have shape: "r = NilSlice \<or> (\<exists>off n c. r = SliceRef (fresh m) off n c)"
    using append_nil_ref_fresh [of src m] by (auto simp: r_def)
  show "\<forall>i v m''. write_at src i v m' = Some m'' \<longrightarrow> read m'' r = read m' r"
    using write_at_other [OF _ assms(1) shape] by blast
qed

lemma cloneAttributes_ref_parts:
  "Tags (fst (cloneAttributes_ref attrs h))
     = (if Tags attrs \<noteq> NilSlice then fst (append_nil_ref (Tags attrs) (strs h)) else Tags attrs)"
  "strs (snd (cloneAttributes_ref attrs h))
     = (if Tags attrs \<noteq> NilSlice then snd (append_nil_ref (Tags attrs) (strs h)) else strs h)"
  "Avatar (fst (cloneAttributes_ref attrs h))
     = (if Avatar attrs \<noteq> NilSlice then fst (append_nil_ref (Avatar attrs) (bytes h))
        else Avatar attrs)"
  "bytes (snd (cloneAttributes_ref attrs h))
     = (if Avatar attrs \<noteq> NilSlice then snd (append_nil_ref (Avatar attrs) (bytes h))
        else bytes h)"
  by (simp_all add: cloneAttributes_ref_def Let_def)

lemma cloneAttributes_ref_isolated:
  assumes "valid_ref (strs h) (Tags attrs)" and "valid_ref (bytes h) (Avatar attrs)"
  defines "copied \<equiv> fst (cloneAttributes_ref attrs h)"
    and "h' \<equiv> snd (cloneAttributes_ref attrs h)"
  shows "read (strs h') (Tags copied) = read (strs h) (Tags attrs)
    \<and> read (bytes h') (Avatar copied) = read (bytes h) (Avatar attrs)
    \<and> (\<forall>a < fresh (strs h). cells (strs h') a = cells (strs h) a)
    \<and> (\<forall>a < fresh (bytes h). cells (bytes h') a = cells (bytes h) a)
    \<and> (\<forall>i v m. write_at (Tags attrs) i v (strs h') = Some m \<longrightarrow>
          read m (Tags copied) = read (strs h') (Tags copied))
    \<and> (\<forall>i v m. write_at (Avatar attrs) i v (bytes h') = Some m \<longrightarrow>
          read m (Avatar copied) = read (bytes h') (Avatar copied))"
  unfolding copied_def h'_def cloneAttributes_ref_parts
  using clone_field [OF assms(1)] clone_field [OF assms(2)]
  by (intro conjI)

lemma Store_Create_ref_parts:
  "fst (Store_Create_ref attrs s h)
     = \<lparr>ID = FormatInt (nextID s + 1), Attrs = fst (cloneAttributes_ref attrs h)\<rparr>"
  "snd (snd (Store_Create_ref attrs s h)) = snd (cloneAttributes_ref attrs h)"
  "Store_Get (FormatInt (nextID s + 1)) (fst (snd (Store_Create_ref attrs s h)))
     = Some (fst (Store_Create_ref attrs s h))"
  by (simp_all add: Store_Create_ref_def Let_def Store_Get_def update_conv' split: prod.splits)

lemma Store_Update_ref_parts:
  assumes "Store_Get ident s \<noteq> None"
  shows "fst (Store_Update_ref ident attrs s h)
     = Inr \<lparr>ID = ident, Attrs = fst (cloneAttributes_ref attrs h)\<rparr>"
  "snd (snd (Store_Update_ref ident attrs s h)) = snd (cloneAttributes_ref attrs h)"
  "Store_Get ident (fst (snd (Store_Update_ref ident attrs s h)))
     = Some \<lparr>ID = ident, Attrs = fst (cloneAttributes_ref attrs h)\<rparr>"
  using assms
  by (auto simp: Store_Update_ref_def Let_def Store_Get_def update_conv' split: prod.splits option.splits)

subsection \<open>The store on values is the store on references read through the heap\<close>

lemma abs_slice_clone:
  "abs_slice (if src \<noteq> NilSlice then snd (append_nil_ref src m) else m)
      (if src \<noteq> NilSlice then fst (append_nil_ref src m) else src)
     = (if abs_slice m src \<noteq> None then append_nil (elems (abs_slice m src)) else abs_slice m src)"
proof (cases src)
  case NilSlice
  then show ?thesis by (simp add: abs_slice_def)
next
  case (SliceRef a off n c)
  then have rhs: "(if abs_slice m src \<noteq> None then append_nil (elems (abs_slice m src))
      else abs_slice m src) = append_nil (read m src)"
    by (simp add: abs_slice_def elems_def)
  show ?thesis
  proof (cases "read m src = []")
    case True
    then have "append_nil_ref src m = (NilSlice, m)" by (simp add: append_nil_ref_def)
    then show ?thesis
      unfolding rhs using SliceRef True by (simp add: abs_slice_def append_nil_def)
  next
    case False
    then obtain k where k: "fst (append_nil_ref src m) = SliceRef (fresh m) 0 k k"
      by (auto simp: append_nil_ref_def alloc_def)
    have "abs_slice (snd (append_nil_ref src m)) (fst (append_nil_ref src m))
        = Some (read (snd (append_nil_ref src m)) (fst (append_nil_ref src m)))"
      by (simp add: k abs_slice_def)
    also have "\<dots> = Some (read m src)" by (simp only: append_nil_ref_read)
    finally show ?thesis
      unfolding rhs using SliceRef False by (simp add: append_nil_def)
  qed
qed

lemma cloneAttributes_refines:
  "abs_attrs (snd (cloneAttributes_ref attrs h)) (fst (cloneAttributes_ref attrs h))
     = cloneAttributes (abs_attrs h attrs)"
proof -
  have other: "Name (fst (cloneAttributes_ref attrs h)) = Name attrs"
    "Email (fst (cloneAttributes_ref attrs h)) = Email attrs"
    "Phone (fst (cloneAttributes_ref attrs h)) = Phone attrs"
    "Address (fst (cloneAttributes_ref attrs h)) = Address attrs"
    "Bio (fst (cloneAttributes_ref attrs h)) = Bio attrs"
    by (simp_all add: cloneAttributes_ref_def Let_def)
  have "abs_attrs (snd (cloneAttributes_ref attrs h)) (fst (cloneAttributes_ref attrs h))
      = \<lparr>Name = Name attrs, Email = Email attrs, Phone = Phone attrs, Address = Address attrs,
         Bio = Bio attrs,
         Tags = (if abs_slice (strs h) (Tags attrs) \<noteq> None
                 then append_nil (elems (abs_slice (strs h) (Tags attrs)))
                 else abs_slice (strs h) (Tags attrs)),
         Avatar = (if abs_slice (bytes h) (Avatar attrs) \<noteq> None
                 then append_nil (elems (abs_slice (bytes h) (Avatar attrs)))
                 else abs_slice (bytes h) (Avatar attrs))\<rparr>"
    unfolding abs_attrs_def other cloneAttributes_ref_parts abs_slice_clone by (rule refl)
  also have "\<dots> = cloneAttributes (abs_attrs h attrs)"
    by (simp add: cloneAttributes_def abs_attrs_def Let_def)
  finally show ?thesis .
qed

lemma abs_slice_frame:
  fixes m m' :: "'a mem"
  assumes "valid_ref m r" and "\<forall>a < fresh m. cells m' a = cells m a"
  shows "abs_slice m' r = abs_slice m r"
  using assms by (cases r) (simp_all add: abs_slice_def read_def valid_ref_def)

lemma cloneAttributes_ref_frame:
  "\<forall>a < fresh (strs h). cells (strs (snd (cloneAttributes_ref attrs h))) a = cells (strs h) a"
  "\<forall>a < fresh (bytes h). cells (bytes (snd (cloneAttributes_ref attrs h))) a = cells (bytes h) a"
  by (simp_all add: cloneAttributes_ref_parts append_nil_ref_frame)

lemma abs_user_frame:
  assumes "valid_ref (strs h) (Tags (Attrs u))" and "valid_ref (bytes h) (Avatar (Attrs u))"
  shows "abs_user (snd (cloneAttributes_ref attrs h)) u = abs_user h u"
  using abs_slice_frame [OF assms(1) cloneAttributes_ref_frame(1)]
    abs_slice_frame [OF assms(2) cloneAttributes_ref_frame(2)]
  by (simp add: abs_user_def abs_attrs_def)

lemma abs_users_frame:
  assumes "valid_store h s"
  shows "map (\<lambda>(k, u). (k, abs_user (snd (cloneAttributes_ref attrs h)) u)) (users s)
     = map (\<lambda>(k, u). (k, abs_user h u)) (users s)"
  using assms unfolding valid_store_def list_all_iff
  by (intro map_cong refl) (auto simp: abs_user_frame)

lemma map_update:
  "map (\<lambda>(k, u). (k, f u)) (AList.update k v al) = AList.update k (f v) (map (\<lambda>(k, u). (k, f u)) al)"
  by (induction al) auto

lemma map_of_abs: "map_of (map (\<lambda>(k, u). (k, f u)) al) k = map_option f (map_of al k)"
  by (induction al) auto

lemma Store_Create_refines:
  assumes "valid_store h s"
  shows "(case Store_Create_ref attrs s h of (u, s', h') \<Rightarrow> (abs_user h' u, abs_store h' s'))
     = Store_Create (abs_attrs h attrs) (abs_store h s)"
proof -
  define h' where "h' = snd (cloneAttributes_ref attrs h)"
  define u where "u = \<lparr>ID = FormatInt (nextID s + 1), Attrs = fst (cloneAttributes_ref attrs h)\<rparr>"
  have c: "Store_Create_ref attrs s h
      = (u, \<lparr>users = AList.update (ID u) u (users s), nextID = nextID s + 1\<rparr>, h')"
    by (simp add: Store_Create_ref_def Let_def u_def h'_def split: prod.splits)
  have au: "abs_user h' u
      = \<lparr>ID = FormatInt (nextID s + 1), Attrs = cloneAttributes (abs_attrs h attrs)\<rparr>"
    by (simp add: abs_user_def u_def h'_def cloneAttributes_refines)
  have "map (\<lambda>(k, u). (k, abs_user h' u)) (AList.update (ID u) u (users s))
      = AList.update (ID u) (abs_user h' u) (map (\<lambda>(k, u). (k, abs_user h u)) (users s))"
    unfolding map_update h'_def abs_users_frame [OF assms] by (rule refl)
  then show ?thesis
    unfolding c by (simp add: abs_store_def Store_Create_def Let_def au) (simp add: u_def)
qed

lemma Store_Update_refines:
  assumes "valid_store h s"
  shows "(case Store_Update_ref ident attrs s h of
            (r, s', h') \<Rightarrow> (map_sum (\<lambda>e. e) (abs_user h') r, abs_store h' s'))
     = Store_Update ident (abs_attrs h attrs) (abs_store h s)"
proof (cases "map_of (users s) ident")
  case None
  then show ?thesis
    by (simp add: Store_Update_ref_def Store_Update_def abs_store_def map_of_abs)
next
  case (Some u0)
  define h' where "h' = snd (cloneAttributes_ref attrs h)"
  define u where "u = \<lparr>ID = ident, Attrs = fst (cloneAttributes_ref attrs h)\<rparr>"
  have c: "Store_Update_ref ident attrs s h
      = (Inr u, s\<lparr>users := AList.update ident u (users s)\<rparr>, h')"
    using Some by (simp add: Store_Update_ref_def Let_def u_def h'_def split: prod.splits)
  have au: "abs_user h' u = \<lparr>ID = ident, Attrs = cloneAttributes (abs_attrs h attrs)\<rparr>"
    by (simp add: abs_user_def u_def h'_def cloneAttributes_refines)
  have "map (\<lambda>(k, u). (k, abs_user h' u)) (AList.update ident u (users s))
      = AList.update ident (abs_user h' u) (map (\<lambda>(k, u). (k, abs_user h u)) (users s))"
    unfolding map_update h'_def abs_users_frame [OF assms] by (rule refl)
  then show ?thesis
    unfolding c using Some
    by (simp add: abs_store_def Store_Update_def Let_def au map_of_abs)
qed

subsection \<open>Assignments by the caller to slices it passed in\<close>

lemma write_apart:
  fixes m m' :: "'a mem"
  assumes "write_at p i v m = Some m'" and "\<not> shares p q"
  shows "abs_slice m' q = abs_slice m q"
proof (cases p)
  case NilSlice
  then show ?thesis using assms(1) by (simp add: write_at_def)
next
  case (SliceRef a off n c)
  then have m': "m' = m\<lparr>cells := (cells m)(a := (cells m a)[off + i := v])\<rparr>"
    using assms(1) by (simp add: write_at_def split: if_splits)
  show ?thesis
    using assms(2) SliceRef by (cases q) (simp_all add: m' shares_def abs_slice_def read_def)
qed

lemma fresh_not_shared:
  fixes m0 :: "'a mem"
  assumes "valid_ref m0 p"
  shows "\<not> shares p (if src \<noteq> NilSlice then fst (append_nil_ref src m0) else src)"
proof (cases "src = NilSlice")
  case True
  then show ?thesis by (cases p) (simp_all add: shares_def)
next
  case False
  show ?thesis
    using append_nil_ref_fresh [of src m0] assms False
    by (cases p) (auto simp: shares_def valid_ref_def)
qed

lemma list_all_update:
  "list_all P al \<Longrightarrow> P (k, v) \<Longrightarrow> list_all P (AList.update k v al)"
  by (induction al) auto

lemma abs_store_write_tags:
  assumes "write_at p i v (strs h) = Some m" and "tags_apart p s"
  shows "abs_store (h\<lparr>strs := m\<rparr>) s = abs_store h s"
proof -
  have "abs_user (h\<lparr>strs := m\<rparr>) w = abs_user h w" if "(k, w) \<in> set (users s)" for k w
  proof -
    from that assms(2) have "\<not> shares p (Tags (Attrs w))"
      by (auto simp: tags_apart_def list_all_iff)
    with assms(1) have "abs_slice m (Tags (Attrs w)) = abs_slice (strs h) (Tags (Attrs w))"
      by (rule write_apart)
    then show ?thesis by (simp add: abs_user_def abs_attrs_def)
  qed
  then have "map (\<lambda>(k, u). (k, abs_user (h\<lparr>strs := m\<rparr>) u)) (users s)
      = map (\<lambda>(k, u). (k, abs_user h u)) (users s)"
    by (intro map_cong refl) auto
  then show ?thesis by (simp add: abs_store_def)
qed

lemma abs_store_write_avatar:
  assumes "write_at p i v (bytes h) = Some m" and "avatars_apart p s"
  shows "abs_store (h\<lparr>bytes := m\<rparr>) s = abs_store h s"
proof -
  have "abs_user (h\<lparr>bytes := m\<rparr>) w = abs_user h w" if "(k, w) \<in> set (users s)" for k w
  proof -
    from that assms(2) have "\<not> shares p (Avatar (Attrs w))"
      by (auto simp: avatars_apart_def list_all_iff)
    with assms(1) have "abs_slice m (Avatar (Attrs w)) = abs_slice (bytes h) (Avatar (Attrs w))"
      by (rule write_apart)
    then show ?thesis by (simp add: abs_user_def abs_attrs_def)
  qed
  then have "map (\<lambda>(k, u). (k, abs_user (h\<lparr>bytes := m\<rparr>) u)) (users s)
      = map (\<lambda>(k, u). (k, abs_user h u)) (users s)"
    by (intro map_cong refl) auto
  then show ?thesis by (simp add: abs_store_def)
qed

text \<open>
  Storing the copy of a bundle keeps the store apart from the slices passed in, if it was
  apart from them before.
\<close>

lemma apart_after_store:
  assumes "valid_ref (strs h) (Tags attrs)" and "valid_ref (bytes h) (Avatar attrs)"
    and "users s' = AList.update k \<lparr>ID = k, Attrs = fst (cloneAttributes_ref attrs h)\<rparr> (users s)"
  shows "tags_apart (Tags attrs) s \<Longrightarrow> tags_apart (Tags attrs) s'"
    and "avatars_apart (Avatar attrs) s \<Longrightarrow> avatars_apart (Avatar attrs) s'"
proof -
  have t: "\<not> shares (Tags attrs) (Tags (fst (cloneAttributes_ref attrs h)))"
    unfolding cloneAttributes_ref_parts by (rule fresh_not_shared [OF assms(1)])
  have a: "\<not> shares (Avatar attrs) (Avatar (fst (cloneAttributes_ref attrs h)))"
    unfolding cloneAttributes_ref_parts by (rule fresh_not_shared [OF assms(2)])
  show "tags_apart (Tags attrs) s \<Longrightarrow> tags_apart (Tags attrs) s'"
    unfolding tags_apart_def assms(3) using t by (intro list_all_update) simp_all
  show "avatars_apart (Avatar attrs) s \<Longrightarrow> avatars_apart (Avatar attrs) s'"
    unfolding avatars_apart_def assms(3) using a by (intro list_all_update) simp_all
qed

lemma Store_Create_ref_users:
  "users (fst (snd (Store_Create_ref attrs s h)))
     = AList.update (FormatInt (nextID s + 1))
         \<lparr>ID = FormatInt (nextID s + 1), Attrs = fst (cloneAttributes_ref attrs h)\<rparr> (users s)"
  by (simp add: Store_Create_ref_def Let_def split: prod.splits)

lemma Store_Update_ref_users:
  "Store_Get ident s \<noteq> None \<Longrightarrow>
   users (fst (snd (Store_Update_ref ident attrs s h)))
     = AList.update ident \<lparr>ID = ident, Attrs = fst (cloneAttributes_ref attrs h)\<rparr> (users s)"
  by (auto simp: Store_Update_ref_def Store_Get_def Let_def split: prod.splits option.splits)

text \<open>
  What a later assignment by the caller to a slice it passed in leaves unchanged: the
  whole store, read through the heap, if no stored record shared an array with that slice.
\<close>

lemma stored_apart_from_input:
  assumes "valid_ref (strs h) (Tags attrs)" and "valid_ref (bytes h) (Avatar attrs)"
    and "users s' = AList.update k \<lparr>ID = k, Attrs = fst (cloneAttributes_ref attrs h)\<rparr> (users s)"
  shows "(\<forall>i v m. write_at (Tags attrs) i v (strs h') = Some m \<longrightarrow> tags_apart (Tags attrs) s \<longrightarrow>
            abs_store (h'\<lparr>strs := m\<rparr>) s' = abs_store h' s')
    \<and> (\<forall>i v m. write_at (Avatar attrs) i v (bytes h') = Some m \<longrightarrow>
            avatars_apart (Avatar attrs) s \<longrightarrow>
            abs_store (h'\<lparr>bytes := m\<rparr>) s' = abs_store h' s')"
  using apart_after_store [OF assms] abs_store_write_tags abs_store_write_avatar
  by blast

lemmas abs_eval =
  abs_store_def abs_user_def abs_attrs_def abs_slice_def store_after_tag_write_def
  store_after_avatar_write_def tags_apart_def avatars_apart_def shares_def
  first_create_def second_create_def reuse_create_def heap1_def hopper_ref_def hopper_def

subsection \<open>What is copied and what is shared\<close>

text \<open>
  Claim C8 (as amended). \<^verbatim>\<open>Create\<close> and \<^verbatim>\<open>Update\<close> store a copy of the tag list and
  of the avatar passed in: the stored bundle is the copy of the bundle passed in, and an
  assignment that a caller later makes to an element of the tag list or avatar it passed
  in does not change what the record just stored holds. It changes no stored record at
  all if the slice passed in shared its array with no record stored before the call.
  The store writes into no array that existed before the call (the copy goes into new
  arrays), so no data handed out earlier changes. The record returned is the record
  stored, with the same references: the returned tag list and avatar share their arrays
  with the store.
\<close>

theorem Store_copies_input_shares_output:
  assumes "valid_ref (strs h) (Tags attrs)" and "valid_ref (bytes h) (Avatar attrs)"
  shows
   "(case Store_Create_ref attrs s h of (u, s', h') \<Rightarrow>
       Store_Get (ID u) s' = Some u
       \<and> read (strs h') (Tags (Attrs u)) = read (strs h) (Tags attrs)
       \<and> read (bytes h') (Avatar (Attrs u)) = read (bytes h) (Avatar attrs)
       \<and> (\<forall>a < fresh (strs h). cells (strs h') a = cells (strs h) a)
       \<and> (\<forall>a < fresh (bytes h). cells (bytes h') a = cells (bytes h) a)
       \<and> (\<forall>i v m. write_at (Tags attrs) i v (strs h') = Some m \<longrightarrow>
             read m (Tags (Attrs u)) = read (strs h') (Tags (Attrs u)))
       \<and> (\<forall>i v m. write_at (Avatar attrs) i v (bytes h') = Some m \<longrightarrow>
             read m (Avatar (Attrs u)) = read (bytes h') (Avatar (Attrs u)))
       \<and> abs_attrs h' (Attrs u) = cloneAttributes (abs_attrs h attrs)
       \<and> (\<forall>i v m. write_at (Tags attrs) i v (strs h') = Some m \<longrightarrow>
             tags_apart (Tags attrs) s \<longrightarrow>
             abs_store (h'\<lparr>strs := m\<rparr>) s' = abs_store h' s')
       \<and> (\<forall>i v m. write_at (Avatar attrs) i v (bytes h') = Some m \<longrightarrow>
             avatars_apart (Avatar attrs) s \<longrightarrow>
             abs_store (h'\<lparr>bytes := m\<rparr>) s' = abs_store h' s'))
    \<and> (Store_Get ident s \<noteq> None \<longrightarrow>
        (case Store_Update_ref ident attrs s h of (r, s', h') \<Rightarrow>
          \<exists>u. r = Inr u \<and> Store_Get ident s' = Some u
          \<and> read (strs h') (Tags (Attrs u)) = read (strs h) (Tags attrs)
          \<and> read (bytes h') (Avatar (Attrs u)) = read (bytes h) (Avatar attrs)
          \<and> (\<forall>a < fresh (strs h). cells (strs h') a = cells (strs h) a)
          \<and> (\<forall>a < fresh (bytes h). cells (bytes h') a = cells (bytes h) a)
          \<and> (\<forall>i v m. write_at (Tags attrs) i v (strs h') = Some m \<longrightarrow>
                read m (Tags (Attrs u)) = read (strs h') (Tags (Attrs u)))
          \<and> (\<forall>i v m. write_at (Avatar attrs) i v (bytes h') = Some m \<longrightarrow>
                read m (Avatar (Attrs u)) = read (bytes h') (Avatar (Attrs u)))
          \<and> abs_attrs h' (Attrs u) = cloneAttributes (abs_attrs h attrs)
          \<and> (\<forall>i v m. write_at (Tags attrs) i v (strs h') = Some m \<longrightarrow>
                tags_apart (Tags attrs) s \<longrightarrow>
                abs_store (h'\<lparr>strs := m\<rparr>) s' = abs_store h' s')
          \<and> (\<forall>i v m. write_at (Avatar attrs) i v (bytes h') = Some m \<longrightarrow>
                avatars_apart (Avatar attrs) s \<longrightarrow>
                abs_store (h'\<lparr>bytes := m\<rparr>) s' = abs_store h' s')))
    \<and> (Store_Get ident s = None \<longrightarrow> Store_Update_ref ident attrs s h = (Inl ErrNotFound, s, h))"
proof (intro conjI impI)
  note iso = cloneAttributes_ref_isolated [OF assms]
  obtain u s' h' where c: "Store_Create_ref attrs s h = (u, s', h')"
    by (cases "Store_Create_ref attrs s h") auto
  have u: "u = \<lparr>ID = FormatInt (nextID s + 1), Attrs = fst (cloneAttributes_ref attrs h)\<rparr>"
    and h': "h' = snd (cloneAttributes_ref attrs h)"
    and g: "Store_Get (FormatInt (nextID s + 1)) s' = Some u"
    using Store_Create_ref_parts [where attrs = attrs and s = s and h = h] c by simp_all
  have us: "users s' = AList.update (FormatInt (nextID s + 1))
      \<lparr>ID = FormatInt (nextID s + 1), Attrs = fst (cloneAttributes_ref attrs h)\<rparr> (users s)"
    using Store_Create_ref_users [of attrs s h] c by simp
  note apart = stored_apart_from_input [OF assms us, of h']
  have ref: "abs_attrs h' (Attrs u) = cloneAttributes (abs_attrs h attrs)"
    by (simp add: u h' cloneAttributes_refines)
  have old: "Store_Get (ID u) s' = Some u
       \<and> read (strs h') (Tags (Attrs u)) = read (strs h) (Tags attrs)
       \<and> read (bytes h') (Avatar (Attrs u)) = read (bytes h) (Avatar attrs)
       \<and> (\<forall>a < fresh (strs h). cells (strs h') a = cells (strs h) a)
       \<and> (\<forall>a < fresh (bytes h). cells (bytes h') a = cells (bytes h) a)
       \<and> (\<forall>i v m. write_at (Tags attrs) i v (strs h') = Some m \<longrightarrow>
             read m (Tags (Attrs u)) = read (strs h') (Tags (Attrs u)))
       \<and> (\<forall>i v m. write_at (Avatar attrs) i v (bytes h') = Some m \<longrightarrow>
             read m (Avatar (Attrs u)) = read (bytes h') (Avatar (Attrs u)))"
    using iso g by (simp add: u h')
  show "case Store_Create_ref attrs s h of (u, s', h') \<Rightarrow>
       Store_Get (ID u) s' = Some u
       \<and> read (strs h') (Tags (Attrs u)) = read (strs h) (Tags attrs)
       \<and> read (bytes h') (Avatar (Attrs u)) = read (bytes h) (Avatar attrs)
       \<and> (\<forall>a < fresh (strs h). cells (strs h') a = cells (strs h) a)
       \<and> (\<forall>a < fresh (bytes h). cells (bytes h') a = cells (bytes h) a)
       \<and> (\<forall>i v m. write_at (Tags attrs) i v (strs h') = Some m \<longrightarrow>
             read m (Tags (Attrs u)) = read (strs h') (Tags (Attrs u)))
       \<and> (\<forall>i v m. write_at (Avatar attrs) i v (bytes h') = Some m \<longrightarrow>
             read m (Avatar (Attrs u)) = read (bytes h') (Avatar (Attrs u)))
       \<and> abs_attrs h' (Attrs u) = cloneAttributes (abs_attrs h attrs)
       \<and> (\<forall>i v m. write_at (Tags attrs) i v (strs h') = Some m \<longrightarrow>
             tags_apart (Tags attrs) s \<longrightarrow>
             abs_store (h'\<lparr>strs := m\<rparr>) s' = abs_store h' s')
       \<and> (\<forall>i v m. write_at (Avatar attrs) i v (bytes h') = Some m \<longrightarrow>
             avatars_apart (Avatar attrs) s \<longrightarrow>
             abs_store (h'\<lparr>bytes := m\<rparr>) s' = abs_store h' s')"
    unfolding c prod.case using old ref apart by blast
next
  note iso = cloneAttributes_ref_isolated [OF assms]
  assume ex: "Store_Get ident s \<noteq> None"
  obtain r s' h' where c: "Store_Update_ref ident attrs s h = (r, s', h')"
    by (cases "Store_Update_ref ident attrs s h") auto
  define u :: UserRef where "u = \<lparr>ID = ident, Attrs = fst (cloneAttributes_ref attrs h)\<rparr>"
  have r: "r = Inr u"
    and h': "h' = snd (cloneAttributes_ref attrs h)"
    and g: "Store_Get ident s' = Some u"
    using Store_Update_ref_parts [OF ex, where attrs = attrs and h = h] c by (simp_all add: u_def)
  have us: "users s' = AList.update ident
      \<lparr>ID = ident, Attrs = fst (cloneAttributes_ref attrs h)\<rparr> (users s)"
    using Store_Update_ref_users [OF ex, of attrs h] c by simp
  note apart = stored_apart_from_input [OF assms us, of h']
  have ref: "abs_attrs h' (Attrs u) = cloneAttributes (abs_attrs h attrs)"
    by (simp add: u_def h' cloneAttributes_refines)
  have old: "r = Inr u \<and> Store_Get ident s' = Some u
          \<and> read (strs h') (Tags (Attrs u)) = read (strs h) (Tags attrs)
          \<and> read (bytes h') (Avatar (Attrs u)) = read (bytes h) (Avatar attrs)
          \<and> (\<forall>a < fresh (strs h). cells (strs h') a = cells (strs h) a)
          \<and> (\<forall>a < fresh (bytes h). cells (bytes h') a = cells (bytes h) a)
          \<and> (\<forall>i v m. write_at (Tags attrs) i v (strs h') = Some m \<longrightarrow>
                read m (Tags (Attrs u)) = read (strs h') (Tags (Attrs u)))
          \<and> (\<forall>i v m. write_at (Avatar attrs) i v (bytes h') = Some m \<longrightarrow>
                read m (Avatar (Attrs u)) = read (bytes h') (Avatar (Attrs u)))"
    using iso g r by (simp add: u_def h')
  show "case Store_Update_ref ident attrs s h of (r, s', h') \<Rightarrow>
          \<exists>u. r = Inr u \<and> Store_Get ident s' = Some u
          \<and> read (strs h') (Tags (Attrs u)) = read (strs h) (Tags attrs)
          \<and> read (bytes h') (Avatar (Attrs u)) = read (bytes h) (Avatar attrs)
          \<and> (\<forall>a < fresh (strs h). cells (strs h') a = cells (strs h) a)
          \<and> (\<forall>a < fresh (bytes h). cells (bytes h') a = cells (bytes h) a)
          \<and> (\<forall>i v m. write_at (Tags attrs) i v (strs h') = Some m \<longrightarrow>
                read m (Tags (Attrs u)) = read (strs h') (Tags (Attrs u)))
          \<and> (\<forall>i v m. write_at (Avatar attrs) i v (bytes h') = Some m \<longrightarrow>
                read m (Avatar (Attrs u)) = read (bytes h') (Avatar (Attrs u)))
          \<and> abs_attrs h' (Attrs u) = cloneAttributes (abs_attrs h attrs)
          \<and> (\<forall>i v m. write_at (Tags attrs) i v (strs h') = Some m \<longrightarrow>
                tags_apart (Tags attrs) s \<longrightarrow>
                abs_store (h'\<lparr>strs := m\<rparr>) s' = abs_store h' s')
          \<and> (\<forall>i v m. write_at (Avatar attrs) i v (bytes h') = Some m \<longrightarrow>
                avatars_apart (Avatar attrs) s \<longrightarrow>
                abs_store (h'\<lparr>bytes := m\<rparr>) s' = abs_store h' s')"
    unfolding c prod.case by (rule exI [of _ u]) (use old ref apart in blast)
next
  assume "Store_Get ident s = None"
  then show "Store_Update_ref ident attrs s h = (Inl ErrNotFound, s, h)"
    by (simp add: Store_Update_ref_def Store_Get_def)
qed

theorem Store_copies_input_shares_output_witness:
  "valid_ref (strs heap0) (Tags ada_ref) \<and> valid_ref (bytes heap0) (Avatar ada_ref)
   \<and> Tags ada_ref = SliceRef 0 0 2 2
   \<and> Tags (Attrs (fst (Store_Create_ref ada_ref NewStore heap0))) = SliceRef 1 0 2 2
   \<and> read (strs (snd (snd (Store_Create_ref ada_ref NewStore heap0)))) (SliceRef 1 0 2 2)
       = [''a'', ''b'']
   \<and> after_write (SliceRef 0 0 2 2) 0 ''x''
       (strs (snd (snd (Store_Create_ref ada_ref NewStore heap0)))) (SliceRef 1 0 2 2)
       = Some [''a'', ''b'']
   \<and> Store_Get ''1'' (fst (snd (Store_Create_ref ada_ref NewStore heap0))) \<noteq> None
   \<and> fst (Store_Update_ref ''1'' ada_ref (fst (snd (Store_Create_ref ada_ref NewStore heap0)))
        (snd (snd (Store_Create_ref ada_ref NewStore heap0))))
       = Inr \<lparr>ID = ''1'', Attrs = ada_ref\<lparr>Tags := SliceRef 2 0 2 2\<rparr>\<rparr>
   \<and> Store_Get ''2'' (fst (snd (Store_Create_ref ada_ref NewStore heap0))) = None
   \<and> valid_ref (strs (snd (snd first_create))) (Tags hopper_ref)
   \<and> valid_ref (bytes (snd (snd first_create))) (Avatar hopper_ref)
   \<and> users (fst (snd first_create))
       = [(''1'', \<lparr>ID = ''1'', Attrs = hopper_ref\<lparr>Tags := SliceRef 1 0 2 2,
                                                  Avatar := SliceRef 1 0 2 2\<rparr>\<rparr>)]
   \<and> tags_apart (Tags hopper_ref) (fst (snd first_create))
   \<and> avatars_apart (Avatar hopper_ref) (fst (snd first_create))
   \<and> abs_store (snd (snd second_create)) (fst (snd second_create))
       = \<lparr>users = [(''1'', \<lparr>ID = ''1'', Attrs = hopper\<rparr>), (''2'', \<lparr>ID = ''2'', Attrs = hopper\<rparr>)],
          nextID = 2\<rparr>
   \<and> store_after_tag_write (Tags hopper_ref) 0 ''x'' (snd (snd second_create))
        (fst (snd second_create))
       = Some (abs_store (snd (snd second_create)) (fst (snd second_create)))
   \<and> store_after_avatar_write (Avatar hopper_ref) 0 7 (snd (snd second_create))
        (fst (snd second_create))
       = Some (abs_store (snd (snd second_create)) (fst (snd second_create)))"
proof -
  define u0 :: UserRef where "u0 = \<lparr>ID = ''1'', Attrs = ada_ref\<lparr>Tags := SliceRef 1 0 2 2\<rparr>\<rparr>"
  define s0 :: StoreRef where "s0 = \<lparr>users = [(''1'', u0)], nextID = 1\<rparr>"
  define h0 :: heap where
    "h0 = \<lparr>strs = \<lparr>cells = (\<lambda>a. [])(0 := [''a'', ''b''], 1 := [''a'', ''b'']), fresh = 2\<rparr>,
            bytes = \<lparr>cells = (\<lambda>a. []), fresh = 0\<rparr>\<rparr>"
  have c: "Store_Create_ref ada_ref NewStore heap0 = (u0, s0, h0)"
    by (simp add: heap_eval u0_def s0_def h0_def)
  have v: "valid_ref (strs heap0) (Tags ada_ref)" "valid_ref (bytes heap0) (Avatar ada_ref)"
    by (simp_all add: heap_eval)
  have v': "valid_ref (strs h0) (Tags ada_ref)" "valid_ref (bytes h0) (Avatar ada_ref)"
    by (simp_all add: heap_eval h0_def)
  have w: "write_at (Tags ada_ref) 0 ''x'' (strs h0)
      = Some \<lparr>cells = (\<lambda>a. [])(0 := [''x'', ''b''], 1 := [''a'', ''b'']), fresh = 2\<rparr>"
    by (simp add: heap_eval h0_def fun_upd_twist)
  have t: "Tags ada_ref = SliceRef 0 0 2 2" "Tags (Attrs u0) = SliceRef 1 0 2 2"
    by (simp_all add: ada_ref_def u0_def)
  from Store_copies_input_shares_output [OF v, where s = NewStore and ident = "''1''"]
  have "read (strs h0) (Tags (Attrs u0)) = read (strs heap0) (Tags ada_ref)"
    and "\<forall>i v m. write_at (Tags ada_ref) i v (strs h0) = Some m \<longrightarrow>
          read m (Tags (Attrs u0)) = read (strs h0) (Tags (Attrs u0))"
    unfolding c by simp_all
  then have r: "read (strs h0) (SliceRef 1 0 2 2) = [''a'', ''b'']"
    and aw: "after_write (SliceRef 0 0 2 2) 0 ''x'' (strs h0) (SliceRef 1 0 2 2) = Some [''a'', ''b'']"
    using w unfolding t by (simp_all add: after_write_def heap_eval)
  have g: "Store_Get ''1'' s0 \<noteq> None" "Store_Get ''2'' s0 = None"
    by (simp_all add: Store_Get_def s0_def)
  from Store_copies_input_shares_output [OF v', where s = s0 and ident = "''1''"] g(1)
  have "\<exists>u. fst (Store_Update_ref ''1'' ada_ref s0 h0) = Inr u"
    by (auto split: prod.splits)
  moreover have upd: "fst (Store_Update_ref ''1'' ada_ref s0 h0)
      = Inr \<lparr>ID = ''1'', Attrs = ada_ref\<lparr>Tags := SliceRef 2 0 2 2\<rparr>\<rparr>"
    by (simp add: heap_eval s0_def u0_def h0_def)
  ultimately have old: "valid_ref (strs heap0) (Tags ada_ref) \<and> valid_ref (bytes heap0) (Avatar ada_ref)
   \<and> Tags ada_ref = SliceRef 0 0 2 2
   \<and> Tags (Attrs (fst (Store_Create_ref ada_ref NewStore heap0))) = SliceRef 1 0 2 2
   \<and> read (strs (snd (snd (Store_Create_ref ada_ref NewStore heap0)))) (SliceRef 1 0 2 2)
       = [''a'', ''b'']
   \<and> after_write (SliceRef 0 0 2 2) 0 ''x''
       (strs (snd (snd (Store_Create_ref ada_ref NewStore heap0)))) (SliceRef 1 0 2 2)
       = Some [''a'', ''b'']
   \<and> Store_Get ''1'' (fst (snd (Store_Create_ref ada_ref NewStore heap0))) \<noteq> None
   \<and> fst (Store_Update_ref ''1'' ada_ref (fst (snd (Store_Create_ref ada_ref NewStore heap0)))
        (snd (snd (Store_Create_ref ada_ref NewStore heap0))))
       = Inr \<lparr>ID = ''1'', Attrs = ada_ref\<lparr>Tags := SliceRef 2 0 2 2\<rparr>\<rparr>
   \<and> Store_Get ''2'' (fst (snd (Store_Create_ref ada_ref NewStore heap0))) = None"
    unfolding c using v t r aw g by simp
  define u1 :: UserRef where
    "u1 = \<lparr>ID = ''1'', Attrs = hopper_ref\<lparr>Tags := SliceRef 1 0 2 2, Avatar := SliceRef 1 0 2 2\<rparr>\<rparr>"
  define q1 :: StoreRef where "q1 = \<lparr>users = [(''1'', u1)], nextID = 1\<rparr>"
  define k1 :: heap where
    "k1 = \<lparr>strs = \<lparr>cells = (\<lambda>a. [])(0 := [''navy'', ''cobol''], 1 := [''navy'', ''cobol'']),
                    fresh = 2\<rparr>,
            bytes = \<lparr>cells = (\<lambda>a. [])(0 := [137, 80], 1 := [137, 80]), fresh = 2\<rparr>\<rparr>"
  have fc: "first_create = (u1, q1, k1)"
    by (simp add: first_create_def heap_eval heap1_def hopper_ref_def u1_def q1_def k1_def)
  define u2 :: UserRef where
    "u2 = \<lparr>ID = ''2'', Attrs = hopper_ref\<lparr>Tags := SliceRef 2 0 2 2, Avatar := SliceRef 2 0 2 2\<rparr>\<rparr>"
  define q2 :: StoreRef where "q2 = \<lparr>users = [(''1'', u1), (''2'', u2)], nextID = 2\<rparr>"
  define k2 :: heap where
    "k2 = \<lparr>strs = \<lparr>cells = (\<lambda>a. [])(0 := [''navy'', ''cobol''], 1 := [''navy'', ''cobol''],
                      2 := [''navy'', ''cobol'']), fresh = 3\<rparr>,
            bytes = \<lparr>cells = (\<lambda>a. [])(0 := [137, 80], 1 := [137, 80], 2 := [137, 80]),
                      fresh = 3\<rparr>\<rparr>"
  have c2: "Store_Create_ref hopper_ref q1 k1 = (u2, q2, k2)"
    by (simp add: heap_eval hopper_ref_def u1_def q1_def k1_def u2_def q2_def k2_def)
  have sc: "second_create = (u2, q2, k2)"
    by (simp add: second_create_def fc c2)
  have q1: "users q1 = [(''1'', \<lparr>ID = ''1'', Attrs = hopper_ref\<lparr>Tags := SliceRef 1 0 2 2,
                                                  Avatar := SliceRef 1 0 2 2\<rparr>\<rparr>)]"
    by (simp add: q1_def u1_def)
  have vh: "valid_ref (strs k1) (Tags hopper_ref)" "valid_ref (bytes k1) (Avatar hopper_ref)"
    by (simp_all add: valid_ref_def k1_def hopper_ref_def)
  have ap: "tags_apart (Tags hopper_ref) q1" "avatars_apart (Avatar hopper_ref) q1"
    by (simp_all add: q1 tags_apart_def avatars_apart_def shares_def hopper_ref_def)
  obtain m1 where w1: "write_at (Tags hopper_ref) 0 ''x'' (strs k2) = Some m1"
    by (simp add: write_at_def hopper_ref_def)
  obtain m2 where w2: "write_at (Avatar hopper_ref) 0 (7 :: byte) (bytes k2) = Some m2"
    by (simp add: write_at_def hopper_ref_def)
  note inst = Store_copies_input_shares_output [OF vh, where s = q1 and ident = "''1''"]
  from inst have "\<forall>i v m. write_at (Tags hopper_ref) i v (strs k2) = Some m \<longrightarrow>
      tags_apart (Tags hopper_ref) q1 \<longrightarrow> abs_store (k2\<lparr>strs := m\<rparr>) q2 = abs_store k2 q2"
    and "\<forall>i v m. write_at (Avatar hopper_ref) i v (bytes k2) = Some m \<longrightarrow>
      avatars_apart (Avatar hopper_ref) q1 \<longrightarrow> abs_store (k2\<lparr>bytes := m\<rparr>) q2 = abs_store k2 q2"
    unfolding c2 by simp_all
  with w1 w2 ap have "abs_store (k2\<lparr>strs := m1\<rparr>) q2 = abs_store k2 q2"
    and "abs_store (k2\<lparr>bytes := m2\<rparr>) q2 = abs_store k2 q2"
    by blast+
  then have keep:
    "store_after_tag_write (Tags hopper_ref) 0 ''x'' k2 q2 = Some (abs_store k2 q2)"
    "store_after_avatar_write (Avatar hopper_ref) 0 7 k2 q2 = Some (abs_store k2 q2)"
    by (simp_all add: store_after_tag_write_def store_after_avatar_write_def w1 w2)
  have rd: "abs_store k2 q2
      = \<lparr>users = [(''1'', \<lparr>ID = ''1'', Attrs = hopper\<rparr>), (''2'', \<lparr>ID = ''2'', Attrs = hopper\<rparr>)],
         nextID = 2\<rparr>"
    by (simp add: abs_store_def abs_user_def abs_attrs_def abs_slice_def read_def
        q2_def k2_def u1_def u2_def hopper_ref_def hopper_def)
  have new: "valid_ref (strs (snd (snd first_create))) (Tags hopper_ref)
   \<and> valid_ref (bytes (snd (snd first_create))) (Avatar hopper_ref)
   \<and> users (fst (snd first_create))
       = [(''1'', \<lparr>ID = ''1'', Attrs = hopper_ref\<lparr>Tags := SliceRef 1 0 2 2,
                                                  Avatar := SliceRef 1 0 2 2\<rparr>\<rparr>)]
   \<and> tags_apart (Tags hopper_ref) (fst (snd first_create))
   \<and> avatars_apart (Avatar hopper_ref) (fst (snd first_create))
   \<and> abs_store (snd (snd second_create)) (fst (snd second_create))
       = \<lparr>users = [(''1'', \<lparr>ID = ''1'', Attrs = hopper\<rparr>), (''2'', \<lparr>ID = ''2'', Attrs = hopper\<rparr>)],
          nextID = 2\<rparr>
   \<and> store_after_tag_write (Tags hopper_ref) 0 ''x'' (snd (snd second_create))
        (fst (snd second_create))
       = Some (abs_store (snd (snd second_create)) (fst (snd second_create)))
   \<and> store_after_avatar_write (Avatar hopper_ref) 0 7 (snd (snd second_create))
        (fst (snd second_create))
       = Some (abs_store (snd (snd second_create)) (fst (snd second_create)))"
    unfolding fc sc fst_conv snd_conv using vh q1 ap keep rd by blast
  from old new show ?thesis by blast
qed

text \<open>
  Claim C8 as stated fails: the record that \<^verbatim>\<open>Create\<close> returns is not a copy of the
  stored one. After a create with the tags \<open>a\<close> and \<open>b\<close>, the returned tag list is the
  stored slice; the caller's assignment of \<open>x\<close> to its first element changes what the
  stored record holds.
\<close>

theorem returned_tags_shared:
  "Store_Get ''1'' (fst (snd (Store_Create_ref ada_ref NewStore heap0)))
     = Some (fst (Store_Create_ref ada_ref NewStore heap0))
   \<and> Tags (Attrs (fst (Store_Create_ref ada_ref NewStore heap0))) = SliceRef 1 0 2 2
   \<and> read (strs (snd (snd (Store_Create_ref ada_ref NewStore heap0)))) (SliceRef 1 0 2 2)
     = [''a'', ''b'']
   \<and> after_write (SliceRef 1 0 2 2) 0 ''x''
       (strs (snd (snd (Store_Create_ref ada_ref NewStore heap0)))) (SliceRef 1 0 2 2)
     = Some [''x'', ''b'']"
  by (simp add: heap_eval)

text \<open>
  The tag list and the avatar that a create returned share their arrays with the stored
  record. Passed in to a second create, they are copied for the second record, but an
  assignment to them still changes the first.
\<close>

lemma passed_in_returned_slices_shared:
  "Tags (Attrs (fst first_create)) = SliceRef 1 0 2 2
   \<and> Avatar (Attrs (fst first_create)) = SliceRef 1 0 2 2
   \<and> \<not> tags_apart (SliceRef 1 0 2 2) (fst (snd first_create))
   \<and> \<not> avatars_apart (SliceRef 1 0 2 2) (fst (snd first_create))
   \<and> abs_store (snd (snd reuse_create)) (fst (snd reuse_create))
       = \<lparr>users = [(''1'', \<lparr>ID = ''1'', Attrs = hopper\<rparr>), (''2'', \<lparr>ID = ''2'', Attrs = hopper\<rparr>)],
          nextID = 2\<rparr>
   \<and> store_after_tag_write (SliceRef 1 0 2 2) 0 ''x'' (snd (snd reuse_create))
        (fst (snd reuse_create))
       = Some \<lparr>users = [(''1'', \<lparr>ID = ''1'', Attrs = hopper\<lparr>Tags := Some [''x'', ''cobol'']\<rparr>\<rparr>),
                        (''2'', \<lparr>ID = ''2'', Attrs = hopper\<rparr>)],
               nextID = 2\<rparr>
   \<and> store_after_avatar_write (SliceRef 1 0 2 2) 0 7 (snd (snd reuse_create))
        (fst (snd reuse_create))
       = Some \<lparr>users = [(''1'', \<lparr>ID = ''1'', Attrs = hopper\<lparr>Avatar := Some [7, 80]\<rparr>\<rparr>),
                        (''2'', \<lparr>ID = ''2'', Attrs = hopper\<rparr>)],
               nextID = 2\<rparr>"
  by (simp add: heap_eval abs_eval)

end
